theory Spec2Isabelle
  imports Complex_Main "HOL-Library.Char_ord" "HOL-Library.Sublist" "HOL-Library.Multiset"
begin

section \<open>Symbolic expressions\<close>

text \<open>
  The program works on SymPy expression trees. An expression is modelled by the tree SymPy
  stores: \<open>Add\<close> and \<open>Mul\<close> carry their tuple of arguments \<open>.args\<close> in SymPy's order,
  \<open>Pow\<close> its base and exponent. All symbols of the repository are created with
  \<open>real=True\<close>, so a symbol is its name. SymPy compares expressions structurally, which is
  equality of trees here. The classes \<open>DipoleOperator\<close>, \<open>DipoleMoment\<close>,
  \<open>TransitionFrequency\<close> and \<open>LeviCivita\<close> come from \<open>response_operators\<close>; the code
  reads their attributes \<open>comp\<close>, \<open>op_type\<close>, \<open>from_state\<close>, \<open>to_state\<close> and
  \<open>state\<close>, which are the constructor arguments below.
\<close>

datatype expr =
    Symbol string
  | Integer int
  | Float rat
  | ImaginaryUnit
  | ComplexInfinity
  | Bra expr
  | Ket expr
  | DipoleOperator string string
  | DipoleMoment string string string string
  | TransitionFrequency string
  | LeviCivita
  | Pow expr expr
  | Mul "expr list"
  | Add "expr list"

fun args :: "expr \<Rightarrow> expr list" where
  "args (Add xs) = xs"
| "args (Mul xs) = xs"
| "args (Pow b e) = [b, e]"
| "args (Bra s) = [s]"
| "args (Ket s) = [s]"
| "args _ = []"

fun is_DipoleOperator :: "expr \<Rightarrow> bool" where
  "is_DipoleOperator (DipoleOperator c t) = True"
| "is_DipoleOperator _ = False"

fun is_DipoleMoment :: "expr \<Rightarrow> bool" where
  "is_DipoleMoment (DipoleMoment c f t ty) = True"
| "is_DipoleMoment _ = False"


fun comp_of :: "expr \<Rightarrow> string" where
  "comp_of (DipoleOperator c t) = c"
| "comp_of (DipoleMoment c f t ty) = c"
| "comp_of _ = []"

text \<open>Exceptions: the class raised and which of the program's messages it carries.\<close>

datatype message =
    UnexpectedKeyword string
  | DipoleMomentInSOS
  | NotMulOrAdd
  | IndicesNotCorrect
  | ComponentsNotCanonical nat
  | PairsNotInOrder
  | GammaForRealExpression
  | FinalStateMistaken
  | NoneNotSubscriptable
  | NotInList
  | NonDivergentCaseExcluded
  | DivergencesRemain
  | ComplexRhsNotImplemented
  | UnknownResponseEquation
  | NoMessage

datatype error =
    TypeError message
  | ValueError message
  | AssertionError
  | IndexError
  | KeyError
  | ZeroDivisionError message
  | NotImplementedError message
  | AttributeError

definition ABC :: "char list" where
  "ABC = ''ABCDEFGHIJKLMNOPQRSTUVWXYZ''"

section \<open>Permutation expansion (\<open>sum_over_states._build_sos_via_permutation\<close>)\<close>

text \<open>
  \<open>itertools.permutations\<close> yields the arrangements of the positions of its argument in
  lexicographic order of the positions: every element in turn comes first, followed by
  the arrangements of the others.
\<close>

fun picks :: "'a list \<Rightarrow> ('a \<times> 'a list) list" where
  "picks [] = []"
| "picks (x # xs) = (x, xs) # map (\<lambda>(y, ys). (y, x # ys)) (picks xs)"

fun perms_of_length :: "nat \<Rightarrow> 'a list \<Rightarrow> 'a list list" where
  "perms_of_length 0 xs = [[]]"
| "perms_of_length (Suc n) xs =
     concat (map (\<lambda>(y, ys). map ((#) y) (perms_of_length n ys)) (picks xs))"

definition permutations :: "'a list \<Rightarrow> 'a list list" where
  "permutations xs = perms_of_length (length xs) xs"

text \<open>The loop over \<open>zip(operators, perm_pairs)\<close>: the first mismatch raises.\<close>

fun check_pair_order :: "expr list \<Rightarrow> (expr \<times> expr) list \<Rightarrow> error + unit" where
  "check_pair_order (op # ops) (pair # pairs) =
     (if op \<noteq> fst pair then Inl (ValueError PairsNotInOrder)
      else check_pair_order ops pairs)"
| "check_pair_order _ _ = Inr ()"

text \<open>
  The substitution list of one permutation \<open>p\<close>: for every position \<open>j\<close> the operator of
  \<open>perms[0][j]\<close> is replaced by that of \<open>p[j]\<close> and the frequency of \<open>perms[0][j]\<close> by
  that of \<open>p[j]\<close>.
\<close>

fun subs_list_of :: "(expr \<times> expr) list \<Rightarrow> (expr \<times> expr) list \<Rightarrow> (expr \<times> expr) list" where
  "subs_list_of (q # qs) (pp # p) = (fst q, fst pp) # (snd q, snd pp) # subs_list_of qs p"
| "subs_list_of _ _ = []"

text \<open>
  The loop \<open>for i, p in enumerate(perms)\<close>; the first permutation is skipped. SymPy's
  simultaneous substitution \<open>term.subs(subs_list, simultaneous=True)\<close> and its addition are
  the library's and are parameters \<open>subs\<close> and \<open>add\<close>.
\<close>

fun add_permuted_terms ::
  "((expr \<times> expr) list \<Rightarrow> expr \<Rightarrow> expr) \<Rightarrow> (expr \<Rightarrow> expr \<Rightarrow> expr) \<Rightarrow>
   expr \<Rightarrow> (expr \<times> expr) list \<Rightarrow> (expr \<times> expr) list list \<Rightarrow> expr \<Rightarrow> expr" where
  "add_permuted_terms subs add term first [] sos_expr = sos_expr"
| "add_permuted_terms subs add term first (p # ps) sos_expr =
     add_permuted_terms subs add term first ps (add sos_expr (subs (subs_list_of first p) term))"

definition build_sos_via_permutation ::
  "((expr \<times> expr) list \<Rightarrow> expr \<Rightarrow> expr) \<Rightarrow> (expr \<Rightarrow> expr \<Rightarrow> expr) \<Rightarrow>
   expr \<Rightarrow> (expr \<times> expr) list \<Rightarrow> error + expr" where
  "build_sos_via_permutation subs add term perm_pairs =
     (case term of
        Mul factors \<Rightarrow>
          (let operators = filter is_DipoleOperator factors in
           case check_pair_order operators perm_pairs of
             Inl e \<Rightarrow> Inl e
           | Inr _ \<Rightarrow>
               (let perms = permutations perm_pairs in
                Inr (add_permuted_terms subs add term (hd perms) (tl perms) term)))
      | _ \<Rightarrow> Inl AssertionError)"

section \<open>The expression model (\<open>sum_over_states.SumOverStates\<close>)\<close>

text \<open>
  An argument that may be given alone or as a list (\<open>if not isinstance(x, list): [x]\<close>).
\<close>

datatype 'a one_or_list = One 'a | Many "'a list"

fun listify :: "'a one_or_list \<Rightarrow> 'a list" where
  "listify (One x) = [x]"
| "listify (Many xs) = xs"

text \<open>An excluded state is a symbol or an integer.\<close>

datatype state_label = StateSymbol string | StateInt int

record SumOverStates =
  summation_indices :: "string list"
  excluded_states :: "state_label list"
  operators :: "expr list"
  components :: "char list"
  order :: nat
  transition_frequencies :: "expr list"
  correlation_btw_freq :: "(expr \<times> expr) list option"
  expr :: expr

text \<open>
  The \<open>Add\<close> branch walks the factors of every term: an operator not yet seen is
  recorded together with the characters of its \<open>comp\<close>; a \<open>DipoleMoment\<close> raises.
\<close>

fun collect_operators ::
  "expr list \<Rightarrow> expr list \<times> char list \<Rightarrow> error + (expr list \<times> char list)" where
  "collect_operators [] acc = Inr acc"
| "collect_operators (a # rest) (ops, comps) =
     (let acc = (if is_DipoleOperator a \<and> a \<notin> set ops then (ops @ [a], comps @ comp_of a)
                 else (ops, comps))
      in if is_DipoleMoment a then Inl (TypeError DipoleMomentInSOS)
         else collect_operators rest acc)"

fun collect_terms ::
  "expr list \<Rightarrow> expr list \<times> char list \<Rightarrow> error + (expr list \<times> char list)" where
  "collect_terms [] acc = Inr acc"
| "collect_terms (arg # rest) acc =
     (case collect_operators (args arg) acc of
        Inl e \<Rightarrow> Inl e
      | Inr acc' \<Rightarrow> collect_terms rest acc')"

text \<open>The \<open>Mul\<close> branch records the components of every operator factor.\<close>

fun collect_components :: "expr list \<Rightarrow> char list \<Rightarrow> error + char list" where
  "collect_components [] comps = Inr comps"
| "collect_components (a # rest) comps =
     (if is_DipoleOperator a then collect_components rest (comps @ comp_of a)
      else if is_DipoleMoment a then Inl (TypeError DipoleMomentInSOS)
      else collect_components rest comps)"

definition index_bound :: "string \<Rightarrow> expr list \<Rightarrow> bool" where
  "index_bound index factors \<longleftrightarrow>
     Bra (Symbol index) \<in> set factors \<and> Ket (Symbol index) \<in> set factors"

text \<open>
  Lines 124 to 164 of the constructor: operators and sorted components, or the first
  exception raised.
\<close>

definition validate_structure :: "expr \<Rightarrow> string list \<Rightarrow> error + (expr list \<times> char list)" where
  "validate_structure e indices =
     (case e of
        Add terms \<Rightarrow>
          (case collect_terms terms ([], []) of
             Inl err \<Rightarrow> Inl err
           | Inr (ops, comps) \<Rightarrow>
               if list_all (\<lambda>index. list_all (\<lambda>arg. index_bound index (args arg)) terms) indices
               then Inr (ops, sort comps)
               else Inl (ValueError IndicesNotCorrect))
      | Mul factors \<Rightarrow>
          (case collect_components factors [] of
             Inl err \<Rightarrow> Inl err
           | Inr comps \<Rightarrow>
               if list_all (\<lambda>index. index_bound index factors) indices
               then Inr (filter is_DipoleOperator factors, sort comps)
               else Inl (ValueError IndicesNotCorrect))
      | _ \<Rightarrow> Inl (TypeError NotMulOrAdd))"

text \<open>
  The constructor. The summation indices are symbols and the excluded states symbols or
  integers by their types, which is what the constructor's assertions ask. \<open>doit\<close> is
  SymPy's.
\<close>

definition SumOverStates_init ::
  "((expr \<times> expr) list \<Rightarrow> expr \<Rightarrow> expr) \<Rightarrow> (expr \<Rightarrow> expr \<Rightarrow> expr) \<Rightarrow> (expr \<Rightarrow> expr) \<Rightarrow>
   expr \<Rightarrow> string one_or_list \<Rightarrow> (expr \<times> expr) list option \<Rightarrow> (expr \<times> expr) list option \<Rightarrow>
   state_label one_or_list option \<Rightarrow> error + SumOverStates" where
  "SumOverStates_init subs add doit e indices_arg corr perm_pairs excluded =
     (let indices = listify indices_arg;
          excl = (case excluded of None \<Rightarrow> [] | Some x \<Rightarrow> listify x)
      in case validate_structure e indices of
           Inl err \<Rightarrow> Inl err
         | Inr (ops, comps) \<Rightarrow>
             (let n = length comps in
              if comps \<noteq> take n ABC then Inl (ValueError (ComponentsNotCanonical n))
              else
                (case (case perm_pairs of
                         None \<Rightarrow> Inr e
                       | Some [] \<Rightarrow> Inr e
                       | Some pairs \<Rightarrow> build_sos_via_permutation subs add e pairs) of
                   Inl err \<Rightarrow> Inl err
                 | Inr full \<Rightarrow>
                     Inr \<lparr> summation_indices = indices,
                           excluded_states = excl,
                           operators = ops,
                           components = comps,
                           order = n,
                           transition_frequencies = map TransitionFrequency indices,
                           correlation_btw_freq = corr,
                           expr = doit full \<rparr>)))"

section \<open>Calling the constructor from \<open>evaluate_property\<close>\<close>

text \<open>
  A call passes keyword arguments by name. The constructor's signature is
  \<open>__init__(self, expr, summation_indices, *, correlation_btw_freq=None, perm_pairs=None,
  excluded_states=None)\<close>; Python binds the keywords to these names before the body runs
  and raises \<open>TypeError\<close> for a keyword that the signature does not have.
\<close>

datatype pyval = PyNone | PyPairs "(expr \<times> expr) list" | PyStates "state_label one_or_list"

definition SumOverStates_keywords :: "string list" where
  "SumOverStates_keywords = [''correlation_btw_freq'', ''perm_pairs'', ''excluded_states'']"

fun pairs_arg :: "pyval option \<Rightarrow> (expr \<times> expr) list option" where
  "pairs_arg (Some (PyPairs ps)) = Some ps"
| "pairs_arg _ = None"

fun states_arg :: "pyval option \<Rightarrow> state_label one_or_list option" where
  "states_arg (Some (PyStates s)) = Some s"
| "states_arg _ = None"

definition SumOverStates_call ::
  "((expr \<times> expr) list \<Rightarrow> expr \<Rightarrow> expr) \<Rightarrow> (expr \<Rightarrow> expr \<Rightarrow> expr) \<Rightarrow> (expr \<Rightarrow> expr) \<Rightarrow>
   expr \<Rightarrow> string one_or_list \<Rightarrow> (string \<times> pyval) list \<Rightarrow> error + SumOverStates" where
  "SumOverStates_call subs add doit e indices_arg kwargs =
     (case filter (\<lambda>kw. fst kw \<notin> set SumOverStates_keywords) kwargs of
        kw # _ \<Rightarrow> Inl (TypeError (UnexpectedKeyword (fst kw)))
      | [] \<Rightarrow>
          SumOverStates_init subs add doit e indices_arg
            (pairs_arg (map_of kwargs ''correlation_btw_freq''))
            (pairs_arg (map_of kwargs ''perm_pairs''))
            (states_arg (map_of kwargs ''excluded_states'')))"

text \<open>Reading position \<open>i\<close> of a sequence; a negative \<open>i\<close> is taken from the end.\<close>

definition py_get :: "'a list \<Rightarrow> int \<Rightarrow> error + 'a" where
  "py_get xs i =
     (if 0 \<le> i \<and> i < int (length xs) then Inr (xs ! nat i)
      else if i < 0 \<and> - int (length xs) \<le> i then Inr (xs ! nat (int (length xs) + i))
      else Inl IndexError)"

fun is_Symbol :: "expr \<Rightarrow> bool" where
  "is_Symbol (Symbol s) = True"
| "is_Symbol _ = False"

fun is_Add :: "expr \<Rightarrow> bool" where
  "is_Add (Add xs) = True"
| "is_Add _ = False"

fun pyval_of_pairs :: "(expr \<times> expr) list option \<Rightarrow> pyval" where
  "pyval_of_pairs None = PyNone"
| "pyval_of_pairs (Some ps) = PyPairs ps"

text \<open>
  Arguments whose type the evaluators assert before the construction. \<open>omegas\<close> is
  \<open>None\<close>, one (symbol, value) tuple, a list of such tuples, or an object of another
  type. \<open>symmetric\<close> and \<open>extra_terms\<close> are a \<open>bool\<close> or an object of another type.
  \<open>final_state\<close> is \<open>None\<close>, a tuple (symbol, int), another object that Python takes as
  false (\<open>0\<close>, \<open>()\<close>, \<open>False\<close>) or another object that it takes as true.
\<close>

datatype omegas_arg =
    OmegasNone
  | OmegasTuple "expr \<times> expr"
  | OmegasList "(expr \<times> expr) list"
  | OmegasOther

datatype flag_arg = PyBool bool | NotBool

datatype final_state_arg = FinalNone | FinalTuple string int | FinalFalsy | FinalOther

text \<open>
  \<open>if omegas is None: omegas = []\<close>, \<open>elif type(omegas) == tuple: omegas = [omegas]\<close>,
  \<open>else: assert type(omegas) == list\<close>.
\<close>

fun omegas_list :: "omegas_arg \<Rightarrow> error + (expr \<times> expr) list" where
  "omegas_list OmegasNone = Inr []"
| "omegas_list (OmegasTuple tup) = Inr [tup]"
| "omegas_list (OmegasList tups) = Inr tups"
| "omegas_list OmegasOther = Inl AssertionError"

text \<open>\<open>assert type(symmetric) == bool\<close> and \<open>assert type(extra_terms) == bool\<close>.\<close>

fun assert_bool :: "flag_arg \<Rightarrow> error + bool" where
  "assert_bool (PyBool b) = Inr b"
| "assert_bool NotBool = Inl AssertionError"

definition correlations_of :: "(expr \<times> expr) list \<Rightarrow> (expr \<times> expr) list" where
  "correlations_of omegas = filter (\<lambda>tup. is_Symbol (snd tup) \<or> is_Add (snd tup)) omegas"

text \<open>
  The branch on \<open>final_state\<close>: a true value must be a tuple of length two, and the
  frequency of the final state is then read from the excitation energies of the state
  object (a sequence, so the read can raise); a false value must be \<open>None\<close>.
\<close>

fun final_state_frequency ::
  "rat list \<Rightarrow> final_state_arg \<Rightarrow> error + (expr \<times> expr) list" where
  "final_state_frequency energies FinalNone = Inr []"
| "final_state_frequency energies FinalFalsy = Inl AssertionError"
| "final_state_frequency energies FinalOther = Inl AssertionError"
| "final_state_frequency energies (FinalTuple f i) =
     (case py_get energies i of
        Inl err \<Rightarrow> Inl err
      | Inr w \<Rightarrow> Inr [(TransitionFrequency f, Float w)])"

definition construct_sos ::
  "((expr \<times> expr) list \<Rightarrow> expr \<Rightarrow> expr) \<Rightarrow> (expr \<Rightarrow> expr \<Rightarrow> expr) \<Rightarrow> (expr \<Rightarrow> expr) \<Rightarrow>
   expr \<Rightarrow> string one_or_list \<Rightarrow> (expr \<times> expr) list \<Rightarrow> (expr \<times> expr) list option \<Rightarrow>
   (expr \<times> expr) list option \<Rightarrow> error + SumOverStates" where
  "construct_sos subs add doit sos_expr indices corr perm_pairs excluded_cases =
     SumOverStates_call subs add doit sos_expr indices
       [(''correlation_btw_freq'', PyPairs corr),
        (''perm_pairs'', pyval_of_pairs perm_pairs),
        (''excluded_cases'', pyval_of_pairs excluded_cases)]"

text \<open>
  The three evaluators up to and including the construction (lines 176 to 200, 499 to 522
  and 694 to 714), statement by statement. \<open>ground_state\<close> is the outcome of the three
  calls into adcc and respondo at the head of \<open>evaluate_property_isr\<close>
  (\<open>construct_adcmatrix\<close>, \<open>select_property_method\<close>, \<open>matrix.ground_state\<close>), an
  exception or the objects they return; \<open>energies\<close> is
  \<open>state.excitation_energy_uncorrected\<close>. \<open>body\<close> is the rest of the function, which
  receives what the head has computed. The arguments that the head does not read
  (\<open>gamma_val\<close>, and \<open>extra_terms\<close> in \<open>evaluate_property_isr\<close>) are read by the rest of the
  function only.
\<close>

definition evaluate_property_isr ::
  "((expr \<times> expr) list \<Rightarrow> expr \<Rightarrow> expr) \<Rightarrow> (expr \<Rightarrow> expr \<Rightarrow> expr) \<Rightarrow> (expr \<Rightarrow> expr) \<Rightarrow>
   ('m \<Rightarrow> bool \<Rightarrow> SumOverStates \<Rightarrow> (expr \<times> expr) list \<Rightarrow> (expr \<times> expr) list \<Rightarrow> error + 'r) \<Rightarrow>
   error + 'm \<Rightarrow> rat list \<Rightarrow> expr \<Rightarrow> string one_or_list \<Rightarrow> omegas_arg \<Rightarrow>
   final_state_arg \<Rightarrow> (expr \<times> expr) list option \<Rightarrow> flag_arg \<Rightarrow> (expr \<times> expr) list option \<Rightarrow>
   error + 'r" where
  "evaluate_property_isr subs add doit body ground_state energies sos_expr indices omegas
     final_state perm_pairs symmetric excluded_cases =
     (case ground_state of
        Inl err \<Rightarrow> Inl err
      | Inr mp \<Rightarrow>
     (case omegas_list omegas of
        Inl err \<Rightarrow> Inl err
      | Inr oms \<Rightarrow>
     (case assert_bool symmetric of
        Inl err \<Rightarrow> Inl err
      | Inr symm \<Rightarrow>
     (let corr = correlations_of oms in
      case final_state_frequency energies final_state of
        Inl err \<Rightarrow> Inl err
      | Inr ffreq \<Rightarrow>
          (case construct_sos subs add doit sos_expr indices corr perm_pairs excluded_cases of
             Inl err \<Rightarrow> Inl err
           | Inr sos \<Rightarrow> body mp symm sos (oms @ ffreq) corr)))))"

definition evaluate_property_sos ::
  "((expr \<times> expr) list \<Rightarrow> expr \<Rightarrow> expr) \<Rightarrow> (expr \<Rightarrow> expr \<Rightarrow> expr) \<Rightarrow> (expr \<Rightarrow> expr) \<Rightarrow>
   (bool \<Rightarrow> bool \<Rightarrow> SumOverStates \<Rightarrow> (expr \<times> expr) list \<Rightarrow> (expr \<times> expr) list \<Rightarrow> error + 'r) \<Rightarrow>
   rat list \<Rightarrow> expr \<Rightarrow> string one_or_list \<Rightarrow> omegas_arg \<Rightarrow>
   final_state_arg \<Rightarrow> (expr \<times> expr) list option \<Rightarrow> flag_arg \<Rightarrow> flag_arg \<Rightarrow>
   (expr \<times> expr) list option \<Rightarrow> error + 'r" where
  "evaluate_property_sos subs add doit body energies sos_expr indices omegas final_state
     perm_pairs extra_terms symmetric excluded_cases =
     (case omegas_list omegas of
        Inl err \<Rightarrow> Inl err
      | Inr oms \<Rightarrow>
     (case assert_bool extra_terms of
        Inl err \<Rightarrow> Inl err
      | Inr extra \<Rightarrow>
     (case assert_bool symmetric of
        Inl err \<Rightarrow> Inl err
      | Inr symm \<Rightarrow>
     (let excluded = (case excluded_cases of None \<Rightarrow> Some [] | Some cs \<Rightarrow> Some cs);
          corr = correlations_of oms in
      case final_state_frequency energies final_state of
        Inl err \<Rightarrow> Inl err
      | Inr ffreq \<Rightarrow>
          (case construct_sos subs add doit sos_expr indices corr perm_pairs excluded of
             Inl err \<Rightarrow> Inl err
           | Inr sos \<Rightarrow> body extra symm sos (oms @ ffreq) corr)))))"

definition gamma :: expr where
  "gamma = Symbol (CHR 0x5C # ''gamma'')"

definition evaluate_property_sos_fast ::
  "((expr \<times> expr) list \<Rightarrow> expr \<Rightarrow> expr) \<Rightarrow> (expr \<Rightarrow> expr \<Rightarrow> expr) \<Rightarrow> (expr \<Rightarrow> expr) \<Rightarrow>
   (bool \<Rightarrow> SumOverStates \<Rightarrow> (expr \<rightharpoonup> expr) \<Rightarrow> (expr \<times> expr) list \<Rightarrow> error + 'r) \<Rightarrow>
   rat list \<Rightarrow> expr \<Rightarrow> string one_or_list \<Rightarrow> omegas_arg \<Rightarrow> rat \<Rightarrow>
   final_state_arg \<Rightarrow> (expr \<times> expr) list option \<Rightarrow> flag_arg \<Rightarrow> (expr \<times> expr) list option \<Rightarrow>
   error + 'r" where
  "evaluate_property_sos_fast subs add doit body energies sos_expr indices omegas gamma_val
     final_state perm_pairs extra_terms excluded_cases =
     (case omegas_list omegas of
        Inl err \<Rightarrow> Inl err
      | Inr oms \<Rightarrow>
     (case assert_bool extra_terms of
        Inl err \<Rightarrow> Inl err
      | Inr extra \<Rightarrow>
     (let corr = correlations_of oms in
      case final_state_frequency energies final_state of
        Inl err \<Rightarrow> Inl err
      | Inr ffreq \<Rightarrow>
          (let subs_dict = (map_of (rev (oms @ ffreq)))(gamma \<mapsto> Float gamma_val) in
           case construct_sos subs add doit sos_expr indices corr perm_pairs excluded_cases of
             Inl err \<Rightarrow> Inl err
           | Inr sos \<Rightarrow> body extra sos subs_dict corr))))"

section \<open>The parameter consistency check (\<open>_check_omegas_and_final_state\<close>)\<close>



text \<open>
  The value of a frequency is a Python number or a SymPy expression. The block on
  \<open>omegas\<close> (lines 49 to 67) runs when \<open>omegas\<close> is not empty. It reads \<open>tup[1].args\<close>
  of every correlation, which raises \<open>AttributeError\<close> for a Python number; the rest of
  the block fills the local \<open>check_dict\<close>, which nothing reads, both of its \<open>raise\<close>
  statements being comments.
\<close>

datatype frequency_value = PyNumber rat | SymPyExpr expr

fun sum_freq_of :: "(expr \<times> frequency_value) list \<Rightarrow> error + expr list" where
  "sum_freq_of [] = Inr []"
| "sum_freq_of (tup # rest) =
     (case snd tup of
        PyNumber x \<Rightarrow> Inl AttributeError
      | SymPyExpr v \<Rightarrow>
          (case sum_freq_of rest of
             Inl err \<Rightarrow> Inl err
           | Inr freqs \<Rightarrow> Inr (args v @ freqs)))"




section \<open>Result tensors\<close>

text \<open>
  A NumPy array as far as the program observes it: its shape, its element type and the
  value stored at every index tuple. An update in place (\<open>a[c] += x\<close>, \<open>a[p] = a[c]\<close>,
  \<open>a += b\<close>) changes stored values only.
\<close>

datatype dtype = float_dtype | complex_dtype | object_dtype

record 'v ndarray =
  shape :: "nat list"
  dtype :: dtype
  cells :: "nat list \<Rightarrow> 'v"

definition np_zeros :: "nat list \<Rightarrow> dtype \<Rightarrow> ('v::zero) ndarray" where
  "np_zeros shp dt = \<lparr> shape = shp, dtype = dt, cells = (\<lambda>c. 0) \<rparr>"

definition result_dtype :: "rat \<Rightarrow> dtype" where
  "result_dtype gamma_val = (if gamma_val \<noteq> 0 then complex_dtype else float_dtype)"

text \<open>
  \<open>itertools.product(xs, repeat=n)\<close> (the first position changes slowest) and
  \<open>itertools.combinations_with_replacement(xs, r)\<close>.
\<close>

fun product_repeat :: "'a list \<Rightarrow> nat \<Rightarrow> 'a list list" where
  "product_repeat xs 0 = [[]]"
| "product_repeat xs (Suc n) = concat (map (\<lambda>x. map ((#) x) (product_repeat xs n)) xs)"

fun combinations_with_replacement :: "'a list \<Rightarrow> nat \<Rightarrow> 'a list list" where
  "combinations_with_replacement xs 0 = [[]]"
| "combinations_with_replacement [] (Suc r) = []"
| "combinations_with_replacement (x # xs) (Suc r) =
     map ((#) x) (combinations_with_replacement (x # xs) r)
     @ combinations_with_replacement xs (Suc r)"

definition tensor_components :: "bool \<Rightarrow> nat \<Rightarrow> nat list list" where
  "tensor_components symmetric n =
     (if symmetric then combinations_with_replacement [0, 1, 2] n
      else product_repeat [0, 1, 2] n)"

section \<open>Tensor assembly by substitution (\<open>evaluate_property_isr\<close>, lines 293 to 450)\<close>

text \<open>
  For one component tuple \<open>c\<close> and one term, lines 315 to 436 fill the substitution
  dictionary from the solved response vectors and the adcc properties and substitute it
  into the term; this is the parameter \<open>substitute\<close>, which returns the substituted
  expression or the exception raised on the way. \<open>num\<close> is the number NumPy stores for
  a substituted expression. The test \<open>res == zoo\<close> and the update of the tensor follow.
\<close>

fun accumulate_terms ::
  "(nat list \<Rightarrow> expr \<Rightarrow> error + expr) \<Rightarrow> (expr \<Rightarrow> 'v::plus) \<Rightarrow> nat list \<Rightarrow> expr list \<Rightarrow>
   'v ndarray \<Rightarrow> error + 'v ndarray" where
  "accumulate_terms substitute num c [] res_tens = Inr res_tens"
| "accumulate_terms substitute num c (term # terms) res_tens =
     (case substitute c term of
        Inl err \<Rightarrow> Inl err
      | Inr res \<Rightarrow>
          if res = ComplexInfinity then Inl (ZeroDivisionError NoMessage)
          else accumulate_terms substitute num c terms
                 (res_tens\<lparr>cells := (cells res_tens)(c := cells res_tens c + num res)\<rparr>))"

text \<open>\<open>for p in perms: res_tens[p] = res_tens[c]\<close>\<close>

fun copy_to_permutations :: "nat list list \<Rightarrow> nat list \<Rightarrow> 'v ndarray \<Rightarrow> 'v ndarray" where
  "copy_to_permutations [] c res_tens = res_tens"
| "copy_to_permutations (p # ps) c res_tens =
     copy_to_permutations ps c (res_tens\<lparr>cells := (cells res_tens)(p := cells res_tens c)\<rparr>)"

fun assemble_components ::
  "(nat list \<Rightarrow> expr \<Rightarrow> error + expr) \<Rightarrow> (expr \<Rightarrow> 'v::plus) \<Rightarrow> bool \<Rightarrow> expr list \<Rightarrow>
   nat list list \<Rightarrow> 'v ndarray \<Rightarrow> error + 'v ndarray" where
  "assemble_components substitute num symmetric term_list [] res_tens = Inr res_tens"
| "assemble_components substitute num symmetric term_list (c # cs) res_tens =
     (case accumulate_terms substitute num c term_list res_tens of
        Inl err \<Rightarrow> Inl err
      | Inr t \<Rightarrow>
          assemble_components substitute num symmetric term_list cs
            (if symmetric then copy_to_permutations (permutations c) c t else t))"

definition term_list_of :: "expr \<Rightarrow> expr list" where
  "term_list_of root_expr = (case root_expr of Add terms \<Rightarrow> terms | _ \<Rightarrow> [root_expr])"

definition assemble_isr ::
  "(nat list \<Rightarrow> expr \<Rightarrow> error + expr) \<Rightarrow> (expr \<Rightarrow> 'v::{zero,plus}) \<Rightarrow> nat \<Rightarrow> rat \<Rightarrow> bool \<Rightarrow>
   expr \<Rightarrow> error + 'v ndarray" where
  "assemble_isr substitute num sos_order gamma_val symmetric root_expr =
     assemble_components substitute num symmetric (term_list_of root_expr)
       (tensor_components symmetric sos_order)
       (np_zeros (replicate sos_order 3) (result_dtype gamma_val))"

section \<open>Tensor assembly by substitution (\<open>evaluate_property_sos\<close>, lines 556 to 648)\<close>








section \<open>Tensor assembly by Einstein summation (\<open>evaluate_property_sos_fast\<close>, lines 729 to 864)\<close>

text \<open>
  \<open>state_str.index(s)\<close>, called when \<open>s in state_str\<close> holds.
\<close>

fun str_index :: "string \<Rightarrow> string \<Rightarrow> nat" where
  "str_index sub [] = 0"
| "str_index sub (ch # s) = (if prefix sub (ch # s) then 0 else Suc (str_index sub s))"

text \<open>
  The loop over the excluded cases for one array (lines 834 to 840). A case is a pair of
  symbols, given by their names; \<open>O\<close> is the symbol of the ground state, named \<open>0\<close>.
  \<open>np_delete\<close> is \<open>numpy.delete\<close>.
\<close>

fun remove_cases ::
  "('arr \<Rightarrow> int \<Rightarrow> nat \<Rightarrow> 'arr) \<Rightarrow> (string \<times> int) option \<Rightarrow> string \<Rightarrow> (string \<times> string) list \<Rightarrow>
   'arr \<Rightarrow> (string \<times> int) list \<Rightarrow> error + ('arr \<times> (string \<times> int) list)" where
  "remove_cases np_delete final_state state_str [] array removed = Inr (array, removed)"
| "remove_cases np_delete final_state state_str (cs # rest) array removed =
     (if sublist (fst cs) state_str \<and> snd cs \<noteq> ''0'' then
        (case final_state of
           None \<Rightarrow> Inl (TypeError NoneNotSubscriptable)
         | Some (f, i) \<Rightarrow>
             if snd cs \<noteq> f then Inl AssertionError
             else remove_cases np_delete final_state state_str rest
                    (np_delete array i (str_index (fst cs) state_str))
                    (removed @ [(fst cs, i)]))
      else remove_cases np_delete final_state state_str rest array removed)"

text \<open>
  The loop over \<open>einsum_list\<close> (lines 828 to 841): the subscript strings, the arrays
  with the excluded cases deleted, and the cases deleted.
\<close>

fun build_einsum ::
  "('arr \<Rightarrow> int \<Rightarrow> nat \<Rightarrow> 'arr) \<Rightarrow> (string \<times> int) option \<Rightarrow> (string \<times> string) list \<Rightarrow>
   (string \<times> string \<times> 'arr) list \<Rightarrow> string \<times> string \<times> 'arr list \<times> (string \<times> int) list \<Rightarrow>
   error + (string \<times> string \<times> 'arr list \<times> (string \<times> int) list)" where
  "build_einsum np_delete final_state excluded_cases [] acc = Inr acc"
| "build_einsum np_delete final_state excluded_cases (tup # rest)
     (einsum_left, einsum_right, array_list, removed) =
     (case tup of (state_str, comp_str, array) \<Rightarrow>
        (case (if excluded_cases \<noteq> [] \<and> state_str \<noteq> []
               then remove_cases np_delete final_state state_str excluded_cases array removed
               else Inr (array, removed)) of
           Inl err \<Rightarrow> Inl err
         | Inr (array', removed') \<Rightarrow>
             build_einsum np_delete final_state excluded_cases rest
               (einsum_left @ state_str @ comp_str @ '','', einsum_right @ comp_str,
                array_list @ [array'], removed')))"

text \<open>
  Lines 842 to 850: every distinct case that was deleted must be among the divergences
  recorded and is taken once out of a copy of them. \<open>list.remove\<close> raises when the
  element is absent.
\<close>

fun reconcile ::
  "(string \<times> int) list \<Rightarrow> (string \<times> int) list \<Rightarrow> (string \<times> int) list \<Rightarrow>
   error + (string \<times> int) list" where
  "reconcile [] divergences divergences_copied = Inr divergences_copied"
| "reconcile (rd # rest) divergences divergences_copied =
     (if rd \<notin> set divergences then Inl (ValueError NonDivergentCaseExcluded)
      else if rd \<notin> set divergences_copied then Inl (ValueError NotInList)
      else reconcile rest divergences (remove1 rd divergences_copied))"

definition einsum_string :: "string \<Rightarrow> string \<Rightarrow> string" where
  "einsum_string einsum_left einsum_right =
     butlast einsum_left @ '' -> '' @ sort (remdups einsum_right)"

text \<open>
  One term from its \<open>einsum_list\<close>, its factor and its divergences to its contribution
  (lines 821 to 862). \<open>list_of_set\<close> is \<open>list(set(...))\<close>, whose order Python does not
  fix; \<open>contract\<close> is \<open>factor * np.einsum(einsum_string, *array_list)\<close>.
\<close>

definition term_contribution ::
  "('arr \<Rightarrow> int \<Rightarrow> nat \<Rightarrow> 'arr) \<Rightarrow> ((string \<times> int) list \<Rightarrow> (string \<times> int) list) \<Rightarrow>
   ('f \<Rightarrow> string \<Rightarrow> 'arr list \<Rightarrow> error + 'arr) \<Rightarrow> (string \<times> int) option \<Rightarrow>
   (string \<times> string) list \<Rightarrow> (string \<times> string \<times> 'arr) list \<Rightarrow> 'f \<Rightarrow> (string \<times> int) list \<Rightarrow>
   error + 'arr" where
  "term_contribution np_delete list_of_set contract final_state excluded_cases einsum_list factor
     divergences =
     (case build_einsum np_delete final_state excluded_cases einsum_list ([], [], [], []) of
        Inl err \<Rightarrow> Inl err
      | Inr (einsum_left, einsum_right, array_list, removed) \<Rightarrow>
          (case reconcile (list_of_set removed) divergences divergences of
             Inl err \<Rightarrow> Inl err
           | Inr divergences_copied \<Rightarrow>
               if divergences \<noteq> [] \<and> divergences_copied \<noteq> []
               then Inl (ZeroDivisionError DivergencesRemain)
               else contract factor (einsum_string einsum_left einsum_right) array_list))"

text \<open>
  The loop over the terms. \<open>build_einsum_list\<close> stands for lines 740 to 819, which turn a
  term into its \<open>einsum_list\<close>, factor and divergences; \<open>iadd\<close> gives the values of
  \<open>res_tens\<close> after \<open>res_tens += ...\<close>, an update in place that NumPy refuses when the
  contribution cannot be broadcast or cast to the array.
\<close>

fun assemble_terms_fast ::
  "(expr \<Rightarrow> error + ((string \<times> string \<times> 'arr) list \<times> 'f \<times> (string \<times> int) list)) \<Rightarrow>
   ('arr \<Rightarrow> int \<Rightarrow> nat \<Rightarrow> 'arr) \<Rightarrow> ((string \<times> int) list \<Rightarrow> (string \<times> int) list) \<Rightarrow>
   ('f \<Rightarrow> string \<Rightarrow> 'arr list \<Rightarrow> error + 'arr) \<Rightarrow>
   ('v ndarray \<Rightarrow> 'arr \<Rightarrow> error + (nat list \<Rightarrow> 'v)) \<Rightarrow> (string \<times> int) option \<Rightarrow>
   (string \<times> string) list \<Rightarrow> expr list \<Rightarrow> 'v ndarray \<Rightarrow> error + 'v ndarray" where
  "assemble_terms_fast build_einsum_list np_delete list_of_set contract iadd final_state
     excluded_cases [] res_tens = Inr res_tens"
| "assemble_terms_fast build_einsum_list np_delete list_of_set contract iadd final_state
     excluded_cases (term # rest) res_tens =
     (case build_einsum_list term of
        Inl err \<Rightarrow> Inl err
      | Inr (einsum_list, factor, divergences) \<Rightarrow>
          (case term_contribution np_delete list_of_set contract final_state excluded_cases
                  einsum_list factor divergences of
             Inl err \<Rightarrow> Inl err
           | Inr contribution \<Rightarrow>
               (case iadd res_tens contribution of
                  Inl err \<Rightarrow> Inl err
                | Inr new_cells \<Rightarrow>
                    assemble_terms_fast build_einsum_list np_delete list_of_set contract iadd
                      final_state excluded_cases rest (res_tens\<lparr>cells := new_cells\<rparr>))))"

definition assemble_sos_fast ::
  "(expr \<Rightarrow> error + ((string \<times> string \<times> 'arr) list \<times> 'f \<times> (string \<times> int) list)) \<Rightarrow>
   ('arr \<Rightarrow> int \<Rightarrow> nat \<Rightarrow> 'arr) \<Rightarrow> ((string \<times> int) list \<Rightarrow> (string \<times> int) list) \<Rightarrow>
   ('f \<Rightarrow> string \<Rightarrow> 'arr list \<Rightarrow> error + 'arr) \<Rightarrow>
   (('v::zero) ndarray \<Rightarrow> 'arr \<Rightarrow> error + (nat list \<Rightarrow> 'v)) \<Rightarrow> nat \<Rightarrow> rat \<Rightarrow>
   (string \<times> int) option \<Rightarrow> (string \<times> string) list \<Rightarrow> expr list \<Rightarrow> error + 'v ndarray" where
  "assemble_sos_fast build_einsum_list np_delete list_of_set contract iadd sos_order gamma_val
     final_state excluded_cases term_list =
     assemble_terms_fast build_einsum_list np_delete list_of_set contract iadd final_state
       excluded_cases term_list (np_zeros (replicate sos_order 3) (result_dtype gamma_val))"

section \<open>Solving the response equations (\<open>evaluate_property_isr\<close>, lines 210 to 286)\<close>

text \<open>
  A key of \<open>rvecs_dict\<close>: the kind of equation \<open>k[0]\<close>, the operator type \<open>k[1]\<close>, the
  frequency \<open>k[2]\<close>, the damping \<open>k[3]\<close> and what follows them: nothing, the class
  \<open>ResponseVector\<close> with the number \<open>k[5]\<close> of the response vector the right-hand side
  is built from, or the symbol of a state. The keys of \<open>build_tree\<close> carry symbolic
  frequency and damping, the modified keys numbers.
\<close>

datatype eq_kind = MTM | S2S_MTM | OtherKind

datatype rhs_origin = NoOrigin | ResponseVector nat | StateOrigin string

record 'n request =
  kind :: eq_kind
  op_type :: string
  omega :: 'n
  damping :: 'n
  origin :: rhs_origin

text \<open>
  What the program reads of \<open>AdccProperties\<close> for an operator type: the modified
  transition moments, the dipole matrices and the operator's dimension.
\<close>

record ('vec, 'dip) adcc_properties =
  mtms :: "nat list \<Rightarrow> 'vec"
  dips :: "nat list \<Rightarrow> 'dip"
  op_dim :: nat

text \<open>
  The state of the resolution: \<open>response_dict\<close>, and the calls of \<open>solve_response\<close>
  dispatched so far, each with its right-hand side, frequency and damping.
\<close>

record 'vec solver_state =
  response_dict :: "nat \<rightharpoonup> 'vec ndarray"
  solves :: "('vec \<times> rat \<times> rat) list"

text \<open>\<open>list(product(*[list(range(n)) for n in shape]))\<close>\<close>

fun indices_of_shape :: "nat list \<Rightarrow> nat list list" where
  "indices_of_shape [] = [[]]"
| "indices_of_shape (n # ns) = concat (map (\<lambda>i. map ((#) i) (indices_of_shape ns)) [0..<n])"

text \<open>
  Lines 214 to 226: the frequencies and the damping are made numbers (\<open>freq\<close> and
  \<open>damp\<close> stand for the two substitutions into SymPy expressions) and the values of
  keys that have become equal are gathered, in the order of their first occurrence.
\<close>

fun add_request :: "rat request \<Rightarrow> nat \<Rightarrow> (rat request \<times> nat list) list \<Rightarrow>
   (rat request \<times> nat list) list" where
  "add_request new_key v [] = [(new_key, [v])]"
| "add_request new_key v (entry # rest) =
     (if fst entry = new_key then (new_key, snd entry @ [v]) # rest
      else entry # add_request new_key v rest)"

fun modify_requests ::
  "(expr \<Rightarrow> rat) \<Rightarrow> (expr \<Rightarrow> rat) \<Rightarrow> rat \<Rightarrow> (expr request \<times> nat) list \<Rightarrow>
   (rat request \<times> nat list) list \<Rightarrow> error + (rat request \<times> nat list) list" where
  "modify_requests freq damp gamma_val [] rvecs_dict_mod = Inr rvecs_dict_mod"
| "modify_requests freq damp gamma_val (kv # rest) rvecs_dict_mod =
     (let k = fst kv; om = freq (omega k); gam = damp (damping k) in
      if gam = 0 \<and> gamma_val \<noteq> 0 then Inl (ValueError GammaForRealExpression)
      else modify_requests freq damp gamma_val rest
             (add_request \<lparr> kind = kind k, op_type = op_type k, omega = om, damping = gam,
                             origin = origin k \<rparr> (snd kv) rvecs_dict_mod))"

text \<open>
  One response array: every component of the shape is solved in turn, and the array is
  stored under every placeholder of the request. \<open>solve_response\<close> is respondo's.
\<close>

definition solve_components ::
  "('vec \<Rightarrow> rat \<Rightarrow> rat \<Rightarrow> 'vec) \<Rightarrow> nat list \<Rightarrow> (nat list \<Rightarrow> 'vec) \<Rightarrow> rat \<Rightarrow> rat \<Rightarrow> nat list \<Rightarrow>
   'vec solver_state \<Rightarrow> 'vec solver_state" where
  "solve_components solve_response shp rhs om gam v st =
     (let response = \<lparr> shape = shp, dtype = object_dtype,
                        cells = (\<lambda>c. solve_response (rhs c) om gam) \<rparr>
      in st\<lparr> response_dict := fold (\<lambda>vv d. d(vv \<mapsto> response)) v (response_dict st),
             solves := solves st @ map (\<lambda>c. (rhs c, om, gam)) (indices_of_shape shp) \<rparr>)"

text \<open>
  Lines 229 to 286 for one modified key \<open>k\<close> with its placeholders \<open>v\<close>. The result is
  the exception raised, if any, and the state reached. \<open>RV\<close> wraps a vector as a complex
  response vector, \<open>bmatrix_vector_product\<close> is the product with the B matrix, and
  \<open>excitation_vector\<close> reads \<open>state.excitation_vector\<close>.
\<close>

definition resolve_request ::
  "('vec \<Rightarrow> rat \<Rightarrow> rat \<Rightarrow> 'vec) \<Rightarrow> ('vec \<Rightarrow> 'vec) \<Rightarrow> ('dip \<Rightarrow> 'vec \<Rightarrow> 'vec) \<Rightarrow> (int \<Rightarrow> 'vec) \<Rightarrow>
   (string \<rightharpoonup> ('vec, 'dip) adcc_properties) \<Rightarrow> (string \<times> int) option \<Rightarrow>
   'vec solver_state \<Rightarrow> rat request \<Rightarrow> nat list \<Rightarrow> error option \<times> 'vec solver_state" where
  "resolve_request solve_response RV bmatrix_vector_product excitation_vector adcc_prop_dict
     final_state st k v =
     (case kind k of
        MTM \<Rightarrow>
          (case adcc_prop_dict (op_type k) of
             None \<Rightarrow> (Some KeyError, st)
           | Some props \<Rightarrow>
               if damping k = 0
               then (None, solve_components solve_response (replicate (op_dim props) 3)
                             (mtms props) (- omega k) 0 v st)
               else (None, solve_components solve_response (replicate (op_dim props) 3)
                             (\<lambda>c. RV (mtms props c)) (- omega k) (- damping k) v st))
      | S2S_MTM \<Rightarrow>
          (case adcc_prop_dict (op_type k) of
             None \<Rightarrow> (Some KeyError, st)
           | Some props \<Rightarrow>
               (case origin k of
                  NoOrigin \<Rightarrow> (Some IndexError, st)
                | ResponseVector no \<Rightarrow>
                    (case response_dict st no of
                       None \<Rightarrow> (Some KeyError, st)
                     | Some rvecs \<Rightarrow>
                         if damping k = 0
                         then (None, solve_components solve_response
                                       (replicate (op_dim props) 3 @ shape rvecs)
                                       (\<lambda>c. bmatrix_vector_product (dips props (take (op_dim props) c))
                                               (cells rvecs (drop (op_dim props) c)))
                                       (- omega k) (- damping k) v st)
                         else (Some (NotImplementedError ComplexRhsNotImplemented), st))
                | StateOrigin s \<Rightarrow>
                    (case final_state of
                       None \<Rightarrow> (Some (TypeError NoneNotSubscriptable), st)
                     | Some (f, i) \<Rightarrow>
                         if s = f then
                           (if damping k = 0
                            then (None, solve_components solve_response (replicate (op_dim props) 3)
                                          (\<lambda>c. bmatrix_vector_product (dips props c) (excitation_vector i))
                                          (- omega k) 0 v st)
                            else (None, solve_components solve_response (replicate (op_dim props) 3)
                                          (\<lambda>c. RV (bmatrix_vector_product (dips props c)
                                                      (excitation_vector i)))
                                          (- omega k) (- damping k) v st))
                         else (Some (ValueError UnknownResponseEquation), st))))
      | OtherKind \<Rightarrow> (Some (ValueError UnknownResponseEquation), st))"

fun resolve_requests ::
  "('vec \<Rightarrow> rat \<Rightarrow> rat \<Rightarrow> 'vec) \<Rightarrow> ('vec \<Rightarrow> 'vec) \<Rightarrow> ('dip \<Rightarrow> 'vec \<Rightarrow> 'vec) \<Rightarrow> (int \<Rightarrow> 'vec) \<Rightarrow>
   (string \<rightharpoonup> ('vec, 'dip) adcc_properties) \<Rightarrow> (string \<times> int) option \<Rightarrow>
   'vec solver_state \<Rightarrow> (rat request \<times> nat list) list \<Rightarrow> error option \<times> 'vec solver_state" where
  "resolve_requests solve_response RV bmatrix_vector_product excitation_vector adcc_prop_dict
     final_state st [] = (None, st)"
| "resolve_requests solve_response RV bmatrix_vector_product excitation_vector adcc_prop_dict
     final_state st (kv # rest) =
     (case resolve_request solve_response RV bmatrix_vector_product excitation_vector
             adcc_prop_dict final_state st (fst kv) (snd kv) of
        (Some err, st') \<Rightarrow> (Some err, st')
      | (None, st') \<Rightarrow>
          resolve_requests solve_response RV bmatrix_vector_product excitation_vector
            adcc_prop_dict final_state st' rest)"

section \<open>Properties: calling the constructor\<close>

lemma construct_sos_raises:
  "construct_sos subs add doit e idx corr pp ex =
     Inl (TypeError (UnexpectedKeyword ''excluded_cases''))"
  by (simp add: construct_sos_def SumOverStates_call_def SumOverStates_keywords_def)

lemma final_state_frequency_ok:
  assumes "fs = FinalNone \<or>
           (\<exists>f i. fs = FinalTuple f i \<and> - int (length energies) \<le> i \<and> i < int (length energies))"
  shows "\<exists>ws. final_state_frequency energies fs = Inr ws"
  using assms by (auto simp: py_get_def)

lemma evaluate_property_isr_raises:
  "\<exists>err. evaluate_property_isr subs add doit body ground_state energies e idx omegas fs pp
            symmetric ex = Inl err"
  by (simp add: evaluate_property_isr_def construct_sos_raises Let_def split: sum.splits)

lemma evaluate_property_sos_raises:
  "\<exists>err. evaluate_property_sos subs add doit body energies e idx omegas fs pp
            extra_terms symmetric ex = Inl err"
  by (simp add: evaluate_property_sos_def construct_sos_raises Let_def split: sum.splits)

lemma evaluate_property_sos_fast_raises:
  "\<exists>err. evaluate_property_sos_fast subs add doit body energies e idx omegas gamma_val fs pp
            extra_terms ex = Inl err"
  by (simp add: evaluate_property_sos_fast_def construct_sos_raises Let_def split: sum.splits)

text \<open>
  C1 (as amended). A call of \<open>evaluate_property_isr\<close>, \<open>evaluate_property_sos\<close> or
  \<open>evaluate_property_sos_fast\<close> reaches the construction of \<open>SumOverStates\<close> when the
  statements before it raise nothing: \<open>omegas\<close> is \<open>None\<close>, a tuple or a list, the flags
  whose type is asserted (\<open>symmetric\<close> in the first two functions, \<open>extra_terms\<close> in the
  last two) are of type \<open>bool\<close>, the final state is \<open>None\<close> or a tuple that names an
  existing excitation energy, and, in \<open>evaluate_property_isr\<close>, the calls into adcc
  return. Every such call passes the keyword \<open>excluded_cases\<close>, which the constructor
  does not have, and so raises \<open>TypeError\<close> before any validation of the expression,
  whatever the expression, the indices, the pairs and the excluded cases are and whatever
  the rest of the function would do. Every other call raises before the construction, so
  no call of the three functions returns.
\<close>

theorem evaluate_property_raises_TypeError:
  "(ground_state = Inr mp \<and> omegas \<noteq> OmegasOther \<and> symmetric = PyBool sb
      \<and> (fs = FinalNone \<or>
           (\<exists>f i. fs = FinalTuple f i \<and> - int (length energies) \<le> i \<and> i < int (length energies)))
    \<longrightarrow> evaluate_property_isr subs add doit body ground_state energies e idx omegas fs pp
           symmetric ex
         = Inl (TypeError (UnexpectedKeyword ''excluded_cases'')))
   \<and> (omegas \<noteq> OmegasOther \<and> extra_terms = PyBool eb \<and> symmetric = PyBool sb
      \<and> (fs = FinalNone \<or>
           (\<exists>f i. fs = FinalTuple f i \<and> - int (length energies) \<le> i \<and> i < int (length energies)))
    \<longrightarrow> evaluate_property_sos subs add doit body' energies e idx omegas fs pp
           extra_terms symmetric ex
         = Inl (TypeError (UnexpectedKeyword ''excluded_cases'')))
   \<and> (omegas \<noteq> OmegasOther \<and> extra_terms = PyBool eb
      \<and> (fs = FinalNone \<or>
           (\<exists>f i. fs = FinalTuple f i \<and> - int (length energies) \<le> i \<and> i < int (length energies)))
    \<longrightarrow> evaluate_property_sos_fast subs add doit body'' energies e idx omegas gamma_val fs pp
           extra_terms ex
         = Inl (TypeError (UnexpectedKeyword ''excluded_cases'')))
   \<and> (\<exists>err. evaluate_property_isr subs add doit body ground_state energies e idx omegas fs pp
           symmetric ex = Inl err)
   \<and> (\<exists>err. evaluate_property_sos subs add doit body' energies e idx omegas fs pp
           extra_terms symmetric ex = Inl err)
   \<and> (\<exists>err. evaluate_property_sos_fast subs add doit body'' energies e idx omegas gamma_val fs pp
           extra_terms ex = Inl err)"
proof (intro conjI impI)
  assume a: "ground_state = Inr mp \<and> omegas \<noteq> OmegasOther \<and> symmetric = PyBool sb
      \<and> (fs = FinalNone \<or>
           (\<exists>f i. fs = FinalTuple f i \<and> - int (length energies) \<le> i \<and> i < int (length energies)))"
  then obtain ws where ws: "final_state_frequency energies fs = Inr ws"
    using final_state_frequency_ok [of fs energies] by blast
  obtain oms where oms: "omegas_list omegas = Inr oms"
    using a by (cases omegas) simp_all
  show "evaluate_property_isr subs add doit body ground_state energies e idx omegas fs pp
           symmetric ex
         = Inl (TypeError (UnexpectedKeyword ''excluded_cases''))"
    using a ws oms by (simp add: evaluate_property_isr_def construct_sos_raises Let_def)
next
  assume a: "omegas \<noteq> OmegasOther \<and> extra_terms = PyBool eb \<and> symmetric = PyBool sb
      \<and> (fs = FinalNone \<or>
           (\<exists>f i. fs = FinalTuple f i \<and> - int (length energies) \<le> i \<and> i < int (length energies)))"
  then obtain ws where ws: "final_state_frequency energies fs = Inr ws"
    using final_state_frequency_ok [of fs energies] by blast
  obtain oms where oms: "omegas_list omegas = Inr oms"
    using a by (cases omegas) simp_all
  show "evaluate_property_sos subs add doit body' energies e idx omegas fs pp
           extra_terms symmetric ex
         = Inl (TypeError (UnexpectedKeyword ''excluded_cases''))"
    using a ws oms by (simp add: evaluate_property_sos_def construct_sos_raises Let_def)
next
  assume a: "omegas \<noteq> OmegasOther \<and> extra_terms = PyBool eb
      \<and> (fs = FinalNone \<or>
           (\<exists>f i. fs = FinalTuple f i \<and> - int (length energies) \<le> i \<and> i < int (length energies)))"
  then obtain ws where ws: "final_state_frequency energies fs = Inr ws"
    using final_state_frequency_ok [of fs energies] by blast
  obtain oms where oms: "omegas_list omegas = Inr oms"
    using a by (cases omegas) simp_all
  show "evaluate_property_sos_fast subs add doit body'' energies e idx omegas gamma_val fs pp
           extra_terms ex
         = Inl (TypeError (UnexpectedKeyword ''excluded_cases''))"
    using a ws oms by (simp add: evaluate_property_sos_fast_def construct_sos_raises Let_def)
next
  show "\<exists>err. evaluate_property_isr subs add doit body ground_state energies e idx omegas fs pp
           symmetric ex = Inl err"
    by (rule evaluate_property_isr_raises)
next
  show "\<exists>err. evaluate_property_sos subs add doit body' energies e idx omegas fs pp
           extra_terms symmetric ex = Inl err"
    by (rule evaluate_property_sos_raises)
next
  show "\<exists>err. evaluate_property_sos_fast subs add doit body'' energies e idx omegas gamma_val fs pp
           extra_terms ex = Inl err"
    by (rule evaluate_property_sos_fast_raises)
qed

theorem evaluate_property_raises_TypeError_witness:
  "evaluate_property_isr (\<lambda>l t. t) (\<lambda>a b. Add [a, b]) (\<lambda>t. t)
      (\<lambda>mp symm s om c. Inr (order s)) (Inr ())
      [1/4, 1/2] (Mul [Bra (Symbol ''0''), DipoleOperator ''A'' ''electric'', Ket (Symbol ''n'')])
      (Many [''n'']) (OmegasTuple (Symbol ''w'', Float (1/2))) (FinalTuple ''f'' 1) None
      (PyBool True) None
    = Inl (TypeError (UnexpectedKeyword ''excluded_cases''))
   \<and> evaluate_property_sos_fast (\<lambda>l t. t) (\<lambda>a b. Add [a, b]) (\<lambda>t. t)
      (\<lambda>extra s d c. Inr (order s))
      [1/4, 1/2] (Mul [Bra (Symbol ''0''), DipoleOperator ''A'' ''electric'', Ket (Symbol ''n'')])
      (Many [''n'']) (OmegasTuple (Symbol ''w'', Float (1/2))) 0 (FinalTuple ''f'' 1) None
      (PyBool False) None
    = Inl (TypeError (UnexpectedKeyword ''excluded_cases''))"
  using evaluate_property_raises_TypeError [where omegas = "OmegasTuple (Symbol ''w'', Float (1/2))"
      and symmetric = "PyBool True" and sb = True and extra_terms = "PyBool False" and eb = False
      and ground_state = "Inr ()" and mp = "()" and fs = "FinalTuple ''f'' 1"
      and energies = "[1/4, 1/2]"
      and subs = "\<lambda>l t. t" and add = "\<lambda>a b. Add [a, b]" and doit = "\<lambda>t. t"
      and body = "\<lambda>mp symm s om c. Inr (order s)"
      and e = "Mul [Bra (Symbol ''0''), DipoleOperator ''A'' ''electric'', Ket (Symbol ''n'')]"
      and idx = "Many [''n'']" and pp = None and ex = None
      and body' = "\<lambda>extra symm s om c. Inr (order s)"
      and body'' = "\<lambda>extra s d c. Inr (order s)" and gamma_val = 0]
  by simp

text \<open>
  The claim as stated fails. With two excitation energies and the final state \<open>(f, 2)\<close>
  the read of the final state's energy raises \<open>IndexError\<close> before the construction;
  and with a \<open>symmetric\<close> that is not of type \<open>bool\<close> (the integer \<open>1\<close>, say) the
  assertion on its type raises \<open>AssertionError\<close> before the construction.
\<close>

theorem evaluate_property_IndexError_counterexample:
  "evaluate_property_isr (\<lambda>l t. t) (\<lambda>a b. Add [a, b]) (\<lambda>t. t)
      (\<lambda>mp symm s om c. Inr (order s)) (Inr ())
      [1/4, 1/2] (Mul [Bra (Symbol ''0''), DipoleOperator ''A'' ''electric'', Ket (Symbol ''n'')])
      (Many [''n'']) OmegasNone (FinalTuple ''f'' 2) None (PyBool False) None
    = Inl IndexError
   \<and> evaluate_property_isr (\<lambda>l t. t) (\<lambda>a b. Add [a, b]) (\<lambda>t. t)
      (\<lambda>mp symm s om c. Inr (order s)) (Inr ())
      [1/4, 1/2] (Mul [Bra (Symbol ''0''), DipoleOperator ''A'' ''electric'', Ket (Symbol ''n'')])
      (Many [''n'']) OmegasNone FinalNone None NotBool None
    = Inl AssertionError"
  by (simp add: evaluate_property_isr_def py_get_def Let_def)

section \<open>Properties: permutation expansion\<close>

lemma picks_mset: "(y, ys) \<in> set (picks xs) \<Longrightarrow> mset xs = add_mset y (mset ys)"
  by (induction xs arbitrary: y ys) auto

lemma picks_length: "(y, ys) \<in> set (picks xs) \<Longrightarrow> Suc (length ys) = length xs"
  by (induction xs arbitrary: y ys) auto

lemma length_picks: "length (picks xs) = length xs"
  by (induction xs) auto

lemma picks_complete: "y \<in> set xs \<Longrightarrow> \<exists>ys. (y, ys) \<in> set (picks xs)"
  by (induction xs) force+

lemma length_perms_of_length:
  "length xs = n \<Longrightarrow> length (perms_of_length n xs) = fact n"
proof (induction n arbitrary: xs)
  case 0
  then show ?case by simp
next
  case (Suc n)
  have each: "length (case p of (y, ys) \<Rightarrow> map ((#) y) (perms_of_length n ys)) = fact n"
    if "p \<in> set (picks xs)" for p
  proof -
    obtain y ys where p: "p = (y, ys)" by (cases p)
    then have "length ys = n"
      using that picks_length [of y ys xs] Suc.prems by simp
    then show ?thesis
      using Suc.IH [of ys] p by simp
  qed
  have eq: "map (\<lambda>p. length (case p of (y, ys) \<Rightarrow> map ((#) y) (perms_of_length n ys))) (picks xs)
             = map (\<lambda>p. fact n) (picks xs)"
    by (rule map_cong [OF refl]) (rule each)
  have "length (perms_of_length (Suc n) xs)
          = sum_list (map (\<lambda>p. length (case p of (y, ys) \<Rightarrow> map ((#) y) (perms_of_length n ys))) (picks xs))"
    by (simp add: length_concat comp_def)
  also have "\<dots> = sum_list (map (\<lambda>p. fact n) (picks xs))"
    by (simp only: eq)
  also have "\<dots> = Suc n * fact n"
    using Suc.prems by (simp add: sum_list_triv length_picks)
  finally show ?case by simp
qed

lemma length_permutations: "length (permutations xs) = fact (length xs)"
  by (simp add: permutations_def length_perms_of_length)

lemma perms_of_length_hd:
  "perms_of_length (length xs) xs \<noteq> [] \<and> hd (perms_of_length (length xs) xs) = xs"
proof (induction xs)
  case Nil
  then show ?case by simp
next
  case (Cons x xs)
  have "perms_of_length (length (x # xs)) (x # xs)
          = map ((#) x) (perms_of_length (length xs) xs)
            @ concat (map (\<lambda>(y, ys). map ((#) y) (perms_of_length (length xs) ys))
                          (map (\<lambda>(y, ys). (y, x # ys)) (picks xs)))"
    by simp
  then show ?case
    using Cons by (simp add: hd_append hd_map)
qed

lemma hd_permutations: "hd (permutations xs) = xs"
  by (simp add: permutations_def perms_of_length_hd)

lemma permutations_Cons_tl: "permutations xs = xs # tl (permutations xs)"
proof -
  have "permutations xs \<noteq> []"
    using perms_of_length_hd [of xs] by (simp add: permutations_def)
  then show ?thesis
    using hd_permutations [of xs] by (cases "permutations xs") auto
qed

lemma perms_of_length_sound:
  "p \<in> set (perms_of_length n xs) \<Longrightarrow> length xs = n \<Longrightarrow> mset p = mset xs"
proof (induction n arbitrary: xs p)
  case 0
  then show ?case by simp
next
  case (Suc n)
  then obtain y ys q where *: "(y, ys) \<in> set (picks xs)" "q \<in> set (perms_of_length n ys)" "p = y # q"
    by auto
  have "length ys = n"
    using picks_length [OF *(1)] Suc.prems by simp
  then have "mset q = mset ys"
    using Suc.IH [OF *(2)] by simp
  then show ?case
    using picks_mset [OF *(1)] *(3) by simp
qed

lemma perms_of_length_step:
  "(y, ys) \<in> set (picks xs) \<Longrightarrow> q \<in> set (perms_of_length n ys) \<Longrightarrow>
   y # q \<in> set (perms_of_length (Suc n) xs)"
  by force

lemma perms_of_length_complete:
  "mset p = mset xs \<Longrightarrow> length xs = n \<Longrightarrow> p \<in> set (perms_of_length n xs)"
proof (induction n arbitrary: xs p)
  case 0
  then show ?case by simp
next
  case (Suc n)
  have "length p = Suc n"
    using Suc.prems mset_eq_length [of p xs] by simp
  then obtain y q where p: "p = y # q"
    by (cases p) simp_all
  have "y \<in> set xs"
    using Suc.prems(1) mset_eq_setD [of "y # q" xs] unfolding p by auto
  then obtain ys where ys: "(y, ys) \<in> set (picks xs)"
    using picks_complete [of y xs] by auto
  have q: "mset q = mset ys"
    using picks_mset [OF ys] Suc.prems(1) unfolding p by simp
  have n: "length ys = n"
    using picks_length [OF ys] Suc.prems(2) by simp
  have "q \<in> set (perms_of_length n ys)"
    by (rule Suc.IH [OF q n])
  then show ?case
    unfolding p by (rule perms_of_length_step [OF ys])
qed

lemma set_permutations: "set (permutations xs) = {p. mset p = mset xs}"
proof (rule set_eqI)
  fix p
  show "p \<in> set (permutations xs) \<longleftrightarrow> p \<in> {p. mset p = mset xs}"
    using perms_of_length_sound [of p "length xs" xs] perms_of_length_complete [of p xs "length xs"]
    unfolding permutations_def by blast
qed

lemma add_permuted_terms_foldl:
  "add_permuted_terms subs add term first ps acc
     = foldl add acc (map (\<lambda>p. subs (subs_list_of first p) term) ps)"
  by (induction ps arbitrary: acc) auto

lemma subs_list_of_zip:
  "subs_list_of qs p = concat (map (\<lambda>(q, pp). [(fst q, fst pp), (snd q, snd pp)]) (zip qs p))"
  by (induction qs p rule: subs_list_of.induct) auto

lemma check_pair_order_iff:
  "check_pair_order ops pairs =
     (if \<exists>j < min (length pairs) (length ops). ops ! j \<noteq> fst (pairs ! j)
      then Inl (ValueError PairsNotInOrder) else Inr ())"
proof (induction ops pairs rule: check_pair_order.induct)
  case (1 op ops pair pairs)
  show ?case
  proof (cases "op = fst pair")
    case True
    have "(\<exists>j < min (length (pair # pairs)) (length (op # ops)). (op # ops) ! j \<noteq> fst ((pair # pairs) ! j))
          \<longleftrightarrow> (\<exists>j < min (length pairs) (length ops). ops ! j \<noteq> fst (pairs ! j))"
      (is "?L \<longleftrightarrow> ?R")
    proof
      assume ?L
      then obtain j where j: "j < min (length (pair # pairs)) (length (op # ops))"
        "(op # ops) ! j \<noteq> fst ((pair # pairs) ! j)" by blast
      then obtain i where "j = Suc i" using True by (cases j) auto
      then show ?R using j by auto
    next
      assume ?R
      then obtain j where "j < min (length pairs) (length ops)" "ops ! j \<noteq> fst (pairs ! j)"
        by blast
      then have "Suc j < min (length (pair # pairs)) (length (op # ops))
                 \<and> (op # ops) ! Suc j \<noteq> fst ((pair # pairs) ! Suc j)"
        by simp
      then show ?L by blast
    qed
    then show ?thesis using 1 True by simp
  next
    case False
    then have "\<exists>j < min (length (pair # pairs)) (length (op # ops)). (op # ops) ! j \<noteq> fst ((pair # pairs) ! j)"
      by (intro exI [of _ 0]) simp
    then show ?thesis using False by simp
  qed
qed simp_all

text \<open>
  C3. For a term of product type and a list of \<open>k\<close> pairs: if at some position among the
  first \<open>min k m\<close>, \<open>m\<close> the number of dipole operators of the term, the operator
  found in the term from left to right differs from the operator of the pair, the ordering
  \<open>ValueError\<close> is raised; otherwise the result is the term plus, for every permutation of
  the pairs after the first in the order of \<open>itertools.permutations\<close>, the term with the
  substitution of that permutation applied (operator of pair \<open>j\<close> by operator of the
  permuted pair \<open>j\<close>, and frequency by frequency). The first permutation is the list
  itself and stands for the term as given; there are \<open>k!\<close> permutations and they are the
  rearrangements of the list.
\<close>

theorem build_sos_via_permutation_result:
  "build_sos_via_permutation subs add (Mul factors) pairs =
     (if \<exists>j < min (length pairs) (length (filter is_DipoleOperator factors)).
           filter is_DipoleOperator factors ! j \<noteq> fst (pairs ! j)
      then Inl (ValueError PairsNotInOrder)
      else Inr (foldl add (Mul factors)
                  (map (\<lambda>p. subs (subs_list_of pairs p) (Mul factors)) (tl (permutations pairs)))))
   \<and> permutations pairs = pairs # tl (permutations pairs)
   \<and> length (permutations pairs) = fact (length pairs)
   \<and> set (permutations pairs) = {p. mset p = mset pairs}
   \<and> (\<forall>p. subs_list_of pairs p
            = concat (map (\<lambda>(q, pp). [(fst q, fst pp), (snd q, snd pp)]) (zip pairs p)))"
proof -
  have "build_sos_via_permutation subs add (Mul factors) pairs =
     (if \<exists>j < min (length pairs) (length (filter is_DipoleOperator factors)).
           filter is_DipoleOperator factors ! j \<noteq> fst (pairs ! j)
      then Inl (ValueError PairsNotInOrder)
      else Inr (foldl add (Mul factors)
                  (map (\<lambda>p. subs (subs_list_of pairs p) (Mul factors)) (tl (permutations pairs)))))"
    by (auto simp: build_sos_via_permutation_def check_pair_order_iff Let_def
        add_permuted_terms_foldl hd_permutations)
  then show ?thesis
    using permutations_Cons_tl [of pairs] length_permutations [of pairs]
      set_permutations [of pairs] subs_list_of_zip [of pairs]
    by blast
qed

theorem build_sos_via_permutation_result_witness:
  "build_sos_via_permutation
     (\<lambda>l t. Mul (map (\<lambda>a. case map_of l a of Some b \<Rightarrow> b | None \<Rightarrow> a) (args t)))
     (\<lambda>a b. Add [a, b])
     (Mul [Bra (Symbol ''0''), DipoleOperator ''A'' ''electric'', Ket (Symbol ''n''),
           Bra (Symbol ''n''), DipoleOperator ''B'' ''electric'', Ket (Symbol ''0'')])
     [(DipoleOperator ''A'' ''electric'', Symbol ''w_1''),
      (DipoleOperator ''B'' ''electric'', Symbol ''w_2'')]
   = Inr (Add [Mul [Bra (Symbol ''0''), DipoleOperator ''A'' ''electric'', Ket (Symbol ''n''),
                    Bra (Symbol ''n''), DipoleOperator ''B'' ''electric'', Ket (Symbol ''0'')],
               Mul [Bra (Symbol ''0''), DipoleOperator ''B'' ''electric'', Ket (Symbol ''n''),
                    Bra (Symbol ''n''), DipoleOperator ''A'' ''electric'', Ket (Symbol ''0'')]])"
proof -
  let ?factors = "[Bra (Symbol ''0''), DipoleOperator ''A'' ''electric'', Ket (Symbol ''n''),
          Bra (Symbol ''n''), DipoleOperator ''B'' ''electric'', Ket (Symbol ''0'')]"
  let ?pairs = "[(DipoleOperator ''A'' ''electric'', Symbol ''w_1''),
          (DipoleOperator ''B'' ''electric'', Symbol ''w_2'')]"
  have ordered: "\<not> (\<exists>j < min (length ?pairs) (length (filter is_DipoleOperator ?factors)).
           filter is_DipoleOperator ?factors ! j \<noteq> fst (?pairs ! j))"
  proof -
    have "filter is_DipoleOperator ?factors ! j = fst (?pairs ! j)" if j2: "j < 2" for j
    proof -
      consider "j = 0" | "j = 1" using j2 by linarith
      then show ?thesis by cases simp_all
    qed
    then show ?thesis by simp
  qed
  have rest: "tl (permutations ?pairs) = [[?pairs ! 1, ?pairs ! 0]]"
    by (simp add: permutations_def)
  have "build_sos_via_permutation
     (\<lambda>l t. Mul (map (\<lambda>a. case map_of l a of Some b \<Rightarrow> b | None \<Rightarrow> a) (args t)))
     (\<lambda>a b. Add [a, b]) (Mul ?factors) ?pairs =
      Inr (foldl (\<lambda>a b. Add [a, b]) (Mul ?factors)
                  (map (\<lambda>p. Mul (map (\<lambda>a. case map_of (subs_list_of ?pairs p) a of Some b \<Rightarrow> b | None \<Rightarrow> a) (args (Mul ?factors)))) (tl (permutations ?pairs))))"
    using build_sos_via_permutation_result
    [of "\<lambda>l t. Mul (map (\<lambda>a. case map_of l a of Some b \<Rightarrow> b | None \<Rightarrow> a) (args t))"
        "\<lambda>a b. Add [a, b]" ?factors ?pairs, THEN conjunct1]
    by (simp only: ordered if_False)
  then show ?thesis
    unfolding rest by simp
qed

section \<open>Properties: the constructor's validation\<close>

lemma collect_components_eq:
  "collect_components factors acc = Inr comps \<Longrightarrow>
   comps = acc @ concat (map comp_of (filter is_DipoleOperator factors))"
proof (induction factors arbitrary: acc)
  case Nil
  then show ?case by auto
next
  case (Cons a factors)
  show ?case
  proof (cases "is_DipoleOperator a")
    case True
    then have "collect_components factors (acc @ comp_of a) = Inr comps"
      using Cons.prems by simp
    then show ?thesis
      using Cons.IH [of "acc @ comp_of a"] True by simp
  next
    case False
    then have "collect_components factors acc = Inr comps"
      using Cons.prems by (simp split: if_splits)
    then show ?thesis
      using Cons.IH [of acc] False by simp
  qed
qed

lemma collect_operators_invariant:
  "collect_operators factors (ops, comps) = Inr (ops', comps') \<Longrightarrow>
   comps = concat (map comp_of ops) \<Longrightarrow> comps' = concat (map comp_of ops')"
proof (induction factors arbitrary: ops comps)
  case Nil
  then show ?case by auto
next
  case (Cons a factors)
  show ?case
  proof (cases "is_DipoleOperator a \<and> a \<notin> set ops")
    case True
    then have "collect_operators factors (ops @ [a], comps @ comp_of a) = Inr (ops', comps')"
      using Cons.prems(1) by (simp split: if_splits)
    then show ?thesis
      using Cons.IH [of "ops @ [a]" "comps @ comp_of a"] Cons.prems(2) by simp
  next
    case False
    then have "collect_operators factors (ops, comps) = Inr (ops', comps')"
      using Cons.prems(1) by (simp split: if_splits)
    then show ?thesis
      using Cons.IH [of ops comps] Cons.prems(2) by simp
  qed
qed

lemma collect_terms_invariant:
  "collect_terms terms (ops, comps) = Inr (ops', comps') \<Longrightarrow>
   comps = concat (map comp_of ops) \<Longrightarrow> comps' = concat (map comp_of ops')"
proof (induction terms arbitrary: ops comps)
  case Nil
  then show ?case by auto
next
  case (Cons arg terms)
  then obtain ops1 comps1 where 1: "collect_operators (args arg) (ops, comps) = Inr (ops1, comps1)"
    and 2: "collect_terms terms (ops1, comps1) = Inr (ops', comps')"
    by (auto split: sum.splits)
  have "comps1 = concat (map comp_of ops1)"
    using collect_operators_invariant [OF 1] Cons.prems(2) by simp
  then show ?case
    using Cons.IH [OF 2] by simp
qed

lemma validate_structure_components:
  assumes "validate_structure e indices = Inr (ops, comps)"
  shows "comps = sort (concat (map comp_of ops))"
proof (cases e)
  case (Add terms)
  then show ?thesis
    using assms collect_terms_invariant [of terms "[]" "[]"]
    by (auto simp: validate_structure_def split: sum.splits if_splits)
next
  case (Mul factors)
  then show ?thesis
    using assms collect_components_eq [of factors "[]"]
    by (auto simp: validate_structure_def split: sum.splits if_splits)
qed (use assms in \<open>auto simp: validate_structure_def\<close>)

lemma distinct_ABC: "distinct ABC"
  by (simp add: ABC_def)

lemma build_sos_via_permutation_errors:
  "build_sos_via_permutation subs add e pairs = Inl err \<Longrightarrow>
   err = ValueError PairsNotInOrder \<or> err = AssertionError"
proof -
  have "check_pair_order ops pairs = Inl x \<Longrightarrow> x = ValueError PairsNotInOrder" for ops x
    by (induction ops pairs rule: check_pair_order.induct) (auto split: if_splits)
  then show "build_sos_via_permutation subs add e pairs = Inl err \<Longrightarrow> ?thesis"
    by (auto simp: build_sos_via_permutation_def Let_def split: expr.splits sum.splits)
qed

lemma test_sort: "sort ''BA'' = ''AB''"
  by simp

lemma SumOverStates_init_after_validation:
  assumes "validate_structure e (listify idx) = Inr (ops, comps)"
  shows "SumOverStates_init subs add doit e idx corr pp excl =
     (if comps \<noteq> take (length comps) ABC
      then Inl (ValueError (ComponentsNotCanonical (length comps)))
      else case (case pp of None \<Rightarrow> Inr e | Some [] \<Rightarrow> Inr e
                 | Some pairs \<Rightarrow> build_sos_via_permutation subs add e pairs) of
             Inl err \<Rightarrow> Inl err
           | Inr full \<Rightarrow>
               Inr \<lparr> summation_indices = listify idx,
                     excluded_states = (case excl of None \<Rightarrow> [] | Some x \<Rightarrow> listify x),
                     operators = ops, components = comps, order = length comps,
                     transition_frequencies = map TransitionFrequency (listify idx),
                     correlation_btw_freq = corr, expr = doit full \<rparr>)"
  using assms by (simp add: SumOverStates_init_def Let_def)

lemma collect_operators_no_moment:
  "\<forall>a \<in> set factors. \<not> is_DipoleMoment a \<Longrightarrow> \<exists>r. collect_operators factors acc = Inr r"
proof (induction factors arbitrary: acc)
  case Nil
  then show ?case by simp
next
  case (Cons a factors)
  obtain ops comps where acc: "acc = (ops, comps)" by (cases acc)
  show ?case
    using Cons.IH [of "(ops @ [a], comps @ comp_of a)"] Cons.IH [of "(ops, comps)"] Cons.prems
    unfolding acc by (simp add: Let_def)
qed

lemma collect_terms_no_moment:
  "\<forall>arg \<in> set terms. \<forall>a \<in> set (args arg). \<not> is_DipoleMoment a \<Longrightarrow>
   \<exists>r. collect_terms terms acc = Inr r"
proof (induction terms arbitrary: acc)
  case Nil
  then show ?case by simp
next
  case (Cons arg terms)
  obtain r where "collect_operators (args arg) acc = Inr r"
    using collect_operators_no_moment [of "args arg" acc] Cons.prems by auto
  then show ?case
    using Cons.IH [of r] Cons.prems by simp
qed

lemma collect_components_no_moment:
  "\<forall>a \<in> set factors. \<not> is_DipoleMoment a \<Longrightarrow> \<exists>r. collect_components factors acc = Inr r"
proof (induction factors arbitrary: acc)
  case Nil
  then show ?case by simp
next
  case (Cons a factors)
  show ?case
    using Cons.IH [of "acc @ comp_of a"] Cons.IH [of acc] Cons.prems by simp
qed

lemma validate_structure_Add:
  assumes "\<forall>arg \<in> set terms. \<forall>a \<in> set (args arg). \<not> is_DipoleMoment a"
  shows "\<exists>ops comps. validate_structure (Add terms) indices =
     (if \<forall>index \<in> set indices. \<forall>arg \<in> set terms. index_bound index (args arg)
      then Inr (ops, comps) else Inl (ValueError IndicesNotCorrect))"
proof -
  obtain ops comps where "collect_terms terms ([], []) = Inr (ops, comps)"
    using collect_terms_no_moment [OF assms, of "([], [])"] by auto
  then show ?thesis
    by (auto simp: validate_structure_def list_all_iff)
qed

lemma validate_structure_Mul:
  assumes "\<forall>a \<in> set factors. \<not> is_DipoleMoment a"
  shows "\<exists>ops comps. validate_structure (Mul factors) indices =
     (if \<forall>index \<in> set indices. index_bound index factors
      then Inr (ops, comps) else Inl (ValueError IndicesNotCorrect))"
proof -
  obtain comps where "collect_components factors [] = Inr comps"
    using collect_components_no_moment [OF assms, of "[]"] by auto
  then show ?thesis
    by (auto simp: validate_structure_def list_all_iff)
qed

lemma collect_operators_set:
  "collect_operators factors (ops, comps) = Inr (ops', comps') \<Longrightarrow> distinct ops \<Longrightarrow>
   distinct ops' \<and> set ops' = set ops \<union> {a \<in> set factors. is_DipoleOperator a}"
proof (induction factors arbitrary: ops comps)
  case Nil
  then show ?case by auto
next
  case (Cons a factors)
  show ?case
  proof (cases "is_DipoleOperator a \<and> a \<notin> set ops")
    case True
    then have 1: "collect_operators factors (ops @ [a], comps @ comp_of a) = Inr (ops', comps')"
      using Cons.prems(1) by (simp split: if_splits)
    have 2: "distinct (ops @ [a])"
      using True Cons.prems(2) by simp
    have "distinct ops' \<and> set ops' = set (ops @ [a]) \<union> {a \<in> set factors. is_DipoleOperator a}"
      using 1 2 by (rule Cons.IH)
    then show ?thesis
      using True by auto
  next
    case False
    then have 1: "collect_operators factors (ops, comps) = Inr (ops', comps')"
      using Cons.prems(1) by (simp split: if_splits)
    have "distinct ops' \<and> set ops' = set ops \<union> {a \<in> set factors. is_DipoleOperator a}"
      using 1 Cons.prems(2) by (rule Cons.IH)
    then show ?thesis
      using False by auto
  qed
qed

lemma collect_terms_set:
  "collect_terms terms (ops, comps) = Inr (ops', comps') \<Longrightarrow> distinct ops \<Longrightarrow>
   distinct ops' \<and>
   set ops' = set ops \<union> {a \<in> set (concat (map args terms)). is_DipoleOperator a}"
proof (induction terms arbitrary: ops comps)
  case Nil
  then show ?case by auto
next
  case (Cons arg terms)
  then obtain ops1 comps1 where 1: "collect_operators (args arg) (ops, comps) = Inr (ops1, comps1)"
    and 2: "collect_terms terms (ops1, comps1) = Inr (ops', comps')"
    by (auto split: sum.splits)
  have 3: "distinct ops1 \<and> set ops1 = set ops \<union> {a \<in> set (args arg). is_DipoleOperator a}"
    using 1 Cons.prems(2) by (rule collect_operators_set)
  then have "distinct ops1" by simp
  with 2 have "distinct ops' \<and>
      set ops' = set ops1 \<union> {a \<in> set (concat (map args terms)). is_DipoleOperator a}"
    by (rule Cons.IH)
  then show ?case
    using 3 by auto
qed

lemma sort_concat_cong:
  fixes f :: "'a \<Rightarrow> char list"
  assumes "distinct xs" "distinct ys" "set xs = set ys"
  shows "sort (concat (map f xs)) = sort (concat (map f ys))"
proof -
  have "mset xs = mset ys"
    using assms by (simp add: set_eq_iff_mset_eq_distinct)
  then have "mset (map f xs) = mset (map f ys)"
    by (metis mset_map)
  then have "mset (concat (map f xs)) = mset (concat (map f ys))"
    by (metis mset_concat mset_map sum_mset_sum_list)
  then have "mset (sort (concat (map f ys))) = mset (concat (map f xs))"
    by simp
  then show ?thesis
    by (rule properties_for_sort) simp
qed

lemma validate_structure_Add_result:
  assumes "\<forall>arg \<in> set terms. \<forall>a \<in> set (args arg). \<not> is_DipoleMoment a"
    and "\<forall>index \<in> set indices. \<forall>arg \<in> set terms.
           Bra (Symbol index) \<in> set (args arg) \<and> Ket (Symbol index) \<in> set (args arg)"
  shows "\<exists>ops. validate_structure (Add terms) indices =
           Inr (ops, sort (concat (map comp_of
                  (remdups (filter is_DipoleOperator (concat (map args terms)))))))
         \<and> distinct ops
         \<and> set ops = {a \<in> set (concat (map args terms)). is_DipoleOperator a}"
proof -
  obtain ops comps where c: "collect_terms terms ([], []) = Inr (ops, comps)"
    using collect_terms_no_moment [OF assms(1), of "([], [])"] by auto
  have comps: "comps = concat (map comp_of ops)"
    using collect_terms_invariant [OF c] by simp
  have ops: "distinct ops \<and> set ops = {a \<in> set (concat (map args terms)). is_DipoleOperator a}"
    using collect_terms_set [OF c] by simp
  have "sort comps = sort (concat (map comp_of
                  (remdups (filter is_DipoleOperator (concat (map args terms))))))"
    unfolding comps using ops by (intro sort_concat_cong) auto
  moreover have "validate_structure (Add terms) indices = Inr (ops, sort comps)"
    using c assms(2) by (simp add: validate_structure_def list_all_iff index_bound_def)
  ultimately show ?thesis
    using ops by auto
qed

lemma validate_structure_Mul_result:
  assumes "\<forall>a \<in> set factors. \<not> is_DipoleMoment a"
    and "\<forall>index \<in> set indices.
           Bra (Symbol index) \<in> set factors \<and> Ket (Symbol index) \<in> set factors"
  shows "validate_structure (Mul factors) indices =
           Inr (filter is_DipoleOperator factors,
                sort (concat (map comp_of (filter is_DipoleOperator factors))))"
proof -
  obtain comps where c: "collect_components factors [] = Inr comps"
    using collect_components_no_moment [OF assms(1), of "[]"] by auto
  have "comps = concat (map comp_of (filter is_DipoleOperator factors))"
    using collect_components_eq [OF c] by simp
  then show ?thesis
    using c assms(2) by (simp add: validate_structure_def list_all_iff index_bound_def)
qed

lemma SumOverStates_init_components:
  assumes "validate_structure e (listify idx) = Inr (ops, comps)"
  shows "((\<exists>m. SumOverStates_init subs add doit e idx corr pp excl
                = Inl (ValueError (ComponentsNotCanonical m)))
          \<longleftrightarrow> comps \<noteq> take (length comps) ABC)
     \<and> (\<forall>s. SumOverStates_init subs add doit e idx corr pp excl = Inr s \<longrightarrow>
            operators s = ops \<and> components s = comps \<and> order s = card (set comps)
            \<and> components s = take (order s) ABC)"
proof (intro conjI allI impI)
  let ?init = "SumOverStates_init subs add doit e idx corr pp excl"
  note init = SumOverStates_init_after_validation [OF assms, of subs add doit corr pp excl]
  show "(\<exists>m. ?init = Inl (ValueError (ComponentsNotCanonical m)))
          \<longleftrightarrow> comps \<noteq> take (length comps) ABC"
  proof
    assume "\<exists>m. ?init = Inl (ValueError (ComponentsNotCanonical m))"
    then obtain m where m: "?init = Inl (ValueError (ComponentsNotCanonical m))" by blast
    show "comps \<noteq> take (length comps) ABC"
    proof
      assume eq: "comps = take (length comps) ABC"
      then have "?init = (case (case pp of None \<Rightarrow> Inr e | Some [] \<Rightarrow> Inr e
                 | Some pairs \<Rightarrow> build_sos_via_permutation subs add e pairs) of
             Inl err \<Rightarrow> Inl err
           | Inr full \<Rightarrow>
               Inr \<lparr> summation_indices = listify idx,
                     excluded_states = (case excl of None \<Rightarrow> [] | Some x \<Rightarrow> listify x),
                     operators = ops, components = comps, order = length comps,
                     transition_frequencies = map TransitionFrequency (listify idx),
                     correlation_btw_freq = corr, expr = doit full \<rparr>)"
        using init by simp
      then show False
        using m build_sos_via_permutation_errors [of subs add e]
        by (auto split: option.splits list.splits sum.splits)
    qed
  next
    assume "comps \<noteq> take (length comps) ABC"
    then show "\<exists>m. ?init = Inl (ValueError (ComponentsNotCanonical m))"
      using init by simp
  qed
next
  fix s
  assume s: "SumOverStates_init subs add doit e idx corr pp excl = Inr s"
  note init = SumOverStates_init_after_validation [OF assms, of subs add doit corr pp excl]
  have canon: "comps = take (length comps) ABC"
    using s init by (auto split: if_splits)
  then have fields: "operators s = ops \<and> components s = comps \<and> order s = length comps"
    using s init by (auto split: if_splits sum.splits)
  have "distinct comps"
    using canon distinct_ABC by (metis distinct_take)
  then have "card (set comps) = length comps"
    by (rule distinct_card)
  then show "operators s = ops" "components s = comps" "order s = card (set comps)"
    "components s = take (order s) ABC"
    using fields canon by simp_all
qed

lemma set_sort_concat_comp:
  "set (sort (concat (map comp_of xs))) = (\<Union>a \<in> set xs. set (comp_of a))"
  by simp


lemma comp_union_card:
  "card (\<Union>a \<in> {a \<in> set xs. is_DipoleOperator a}. set (comp_of a))
     = length (remdups (concat (map comp_of (filter is_DipoleOperator xs))))"
proof -
  have "(\<Union>a \<in> {a \<in> set xs. is_DipoleOperator a}. set (comp_of a))
     = set (concat (map comp_of (filter is_DipoleOperator xs)))"
    by auto
  then show ?thesis
    by (simp only: card_set)
qed

text \<open>
  C2 (as amended). Let the expression be a sum or a product that holds no \<open>DipoleMoment\<close>
  and binds every summation index, so that lines 124 to 164 raise nothing. The component
  list is then the sorted list of the characters of \<open>comp\<close> of the dipole operators of
  the expression: of the distinct operators among the factors of the terms of a sum, of
  every operator factor of a product. The construction raises the \<open>ValueError\<close> on the
  components exactly when this sorted list differs from the prefix of the alphabet of its
  length. An object that is constructed has this list as components, it is the prefix of
  the alphabet of length \<open>order\<close>, and its order is the number of distinct component
  characters carried by the dipole operators of the expression.
\<close>

theorem SumOverStates_order_and_components:
  "((\<forall>arg \<in> set terms. \<forall>a \<in> set (args arg). \<not> is_DipoleMoment a)
     \<and> (\<forall>index \<in> set (listify idx). \<forall>arg \<in> set terms.
           Bra (Symbol index) \<in> set (args arg) \<and> Ket (Symbol index) \<in> set (args arg))
    \<longrightarrow>
      ((\<exists>m. SumOverStates_init subs add doit (Add terms) idx corr pp excl
                = Inl (ValueError (ComponentsNotCanonical m)))
        \<longleftrightarrow> sort (concat (map comp_of (remdups (filter is_DipoleOperator (concat (map args terms))))))
             \<noteq> take (length (concat (map comp_of
                    (remdups (filter is_DipoleOperator (concat (map args terms))))))) ABC)
      \<and> (\<forall>s. SumOverStates_init subs add doit (Add terms) idx corr pp excl = Inr s \<longrightarrow>
            components s
              = sort (concat (map comp_of (remdups (filter is_DipoleOperator (concat (map args terms))))))
          \<and> order s = card (\<Union>a \<in> {a \<in> set (concat (map args terms)). is_DipoleOperator a}.
                               set (comp_of a))
          \<and> components s = take (order s) ABC
          \<and> distinct (operators s)
          \<and> set (operators s) = {a \<in> set (concat (map args terms)). is_DipoleOperator a}))
   \<and> ((\<forall>a \<in> set factors. \<not> is_DipoleMoment a)
     \<and> (\<forall>index \<in> set (listify idx).
           Bra (Symbol index) \<in> set factors \<and> Ket (Symbol index) \<in> set factors)
    \<longrightarrow>
      ((\<exists>m. SumOverStates_init subs add doit (Mul factors) idx corr pp excl
                = Inl (ValueError (ComponentsNotCanonical m)))
        \<longleftrightarrow> sort (concat (map comp_of (filter is_DipoleOperator factors)))
             \<noteq> take (length (concat (map comp_of (filter is_DipoleOperator factors)))) ABC)
      \<and> (\<forall>s. SumOverStates_init subs add doit (Mul factors) idx corr pp excl = Inr s \<longrightarrow>
            components s = sort (concat (map comp_of (filter is_DipoleOperator factors)))
          \<and> order s = card (\<Union>a \<in> {a \<in> set factors. is_DipoleOperator a}. set (comp_of a))
          \<and> components s = take (order s) ABC
          \<and> operators s = filter is_DipoleOperator factors))"
proof (intro conjI impI)
  assume a: "(\<forall>arg \<in> set terms. \<forall>a \<in> set (args arg). \<not> is_DipoleMoment a)
     \<and> (\<forall>index \<in> set (listify idx). \<forall>arg \<in> set terms.
           Bra (Symbol index) \<in> set (args arg) \<and> Ket (Symbol index) \<in> set (args arg))"
  let ?C = "sort (concat (map comp_of (remdups (filter is_DipoleOperator (concat (map args terms))))))"
  obtain ops where v: "validate_structure (Add terms) (listify idx) = Inr (ops, ?C)"
    and ops: "distinct ops" "set ops = {a \<in> set (concat (map args terms)). is_DipoleOperator a}"
    using validate_structure_Add_result [of terms "listify idx"] a by blast
  note init = SumOverStates_init_components [OF v, of subs add doit corr pp excl]
  have len: "length ?C = length (concat (map comp_of
                    (remdups (filter is_DipoleOperator (concat (map args terms))))))"
    by simp
  show "(\<exists>m. SumOverStates_init subs add doit (Add terms) idx corr pp excl
                = Inl (ValueError (ComponentsNotCanonical m)))
        \<longleftrightarrow> ?C \<noteq> take (length (concat (map comp_of
                    (remdups (filter is_DipoleOperator (concat (map args terms))))))) ABC"
    using init len by simp
  have set_C: "set ?C = (\<Union>a \<in> {a \<in> set (concat (map args terms)). is_DipoleOperator a}.
                               set (comp_of a))"
    by auto
  show "\<forall>s. SumOverStates_init subs add doit (Add terms) idx corr pp excl = Inr s \<longrightarrow>
            components s = ?C
          \<and> order s = card (\<Union>a \<in> {a \<in> set (concat (map args terms)). is_DipoleOperator a}.
                               set (comp_of a))
          \<and> components s = take (order s) ABC
          \<and> distinct (operators s)
          \<and> set (operators s) = {a \<in> set (concat (map args terms)). is_DipoleOperator a}"
  proof (intro allI impI)
    fix s
    assume s: "SumOverStates_init subs add doit (Add terms) idx corr pp excl = Inr s"
    have f: "operators s = ops \<and> components s = ?C \<and> order s = card (set ?C)
            \<and> components s = take (order s) ABC"
      using init s by blast
    show "components s = ?C
          \<and> order s = card (\<Union>a \<in> {a \<in> set (concat (map args terms)). is_DipoleOperator a}.
                               set (comp_of a))
          \<and> components s = take (order s) ABC
          \<and> distinct (operators s)
          \<and> set (operators s) = {a \<in> set (concat (map args terms)). is_DipoleOperator a}"
    proof -
      have 1: "components s = ?C" using f by blast
      have 2: "order s = card (set ?C)" using f by blast
      have 3: "components s = take (order s) ABC" using f by blast
      have 4: "operators s = ops" using f by blast
      have 5: "distinct (operators s)" unfolding 4 by (rule ops(1))
      have 6: "set (operators s) = {a \<in> set (concat (map args terms)). is_DipoleOperator a}"
        unfolding 4 by (rule ops(2))
      show ?thesis
        using 1 2 3 5 6 unfolding set_C by blast
    qed
  qed
next
  assume a: "(\<forall>a \<in> set factors. \<not> is_DipoleMoment a)
     \<and> (\<forall>index \<in> set (listify idx).
           Bra (Symbol index) \<in> set factors \<and> Ket (Symbol index) \<in> set factors)"
  let ?C = "sort (concat (map comp_of (filter is_DipoleOperator factors)))"
  have v: "validate_structure (Mul factors) (listify idx)
             = Inr (filter is_DipoleOperator factors, ?C)"
    using validate_structure_Mul_result [of factors "listify idx"] a by blast
  note init = SumOverStates_init_components [OF v, of subs add doit corr pp excl]
  have len: "length ?C = length (concat (map comp_of (filter is_DipoleOperator factors)))"
    by simp
  show "(\<exists>m. SumOverStates_init subs add doit (Mul factors) idx corr pp excl
                = Inl (ValueError (ComponentsNotCanonical m)))
        \<longleftrightarrow> ?C \<noteq> take (length (concat (map comp_of (filter is_DipoleOperator factors)))) ABC"
    using init len by simp
  have set_C: "set ?C = (\<Union>a \<in> {a \<in> set factors. is_DipoleOperator a}. set (comp_of a))"
    by auto
  show "\<forall>s. SumOverStates_init subs add doit (Mul factors) idx corr pp excl = Inr s \<longrightarrow>
            components s = ?C
          \<and> order s = card (\<Union>a \<in> {a \<in> set factors. is_DipoleOperator a}. set (comp_of a))
          \<and> components s = take (order s) ABC
          \<and> operators s = filter is_DipoleOperator factors"
  proof (intro allI impI)
    fix s
    assume s: "SumOverStates_init subs add doit (Mul factors) idx corr pp excl = Inr s"
    have f: "operators s = filter is_DipoleOperator factors \<and> components s = ?C
            \<and> order s = card (set ?C) \<and> components s = take (order s) ABC"
      using init s by blast
    show "components s = ?C
          \<and> order s = card (\<Union>a \<in> {a \<in> set factors. is_DipoleOperator a}. set (comp_of a))
          \<and> components s = take (order s) ABC
          \<and> operators s = filter is_DipoleOperator factors"
    proof -
      have 1: "components s = ?C" using f by blast
      have 2: "order s = card (set ?C)" using f by blast
      have 3: "components s = take (order s) ABC" using f by blast
      have 4: "operators s = filter is_DipoleOperator factors" using f by blast
      show ?thesis
        using 1 2 3 4 unfolding set_C by blast
    qed
  qed
qed

theorem SumOverStates_order_and_components_witness:
  "(\<exists>s. SumOverStates_init (\<lambda>l t. t) (\<lambda>a b. Add [a, b]) (\<lambda>t. t)
         (Add [Mul [Pow (Add [TransitionFrequency ''n'', Mul [Integer (- 1), Symbol ''w'']]) (Integer (- 1)),
                Bra (Symbol ''0''), DipoleOperator ''A'' ''electric'', Ket (Symbol ''n''),
                Bra (Symbol ''n''), DipoleOperator ''B'' ''electric'', Ket (Symbol ''0'')],
           Mul [Pow (Add [TransitionFrequency ''n'', Symbol ''w'']) (Integer (- 1)),
                Bra (Symbol ''0''), DipoleOperator ''B'' ''electric'', Ket (Symbol ''n''),
                Bra (Symbol ''n''), DipoleOperator ''A'' ''electric'', Ket (Symbol ''0'')]])
         (Many [''n'']) None None None = Inr s
        \<and> order s = 2 \<and> components s = ''AB'')
   \<and> (\<exists>s. SumOverStates_init (\<lambda>l t. t) (\<lambda>a b. Add [a, b]) (\<lambda>t. t)
         (Mul [Bra (Symbol ''0''), DipoleOperator ''A'' ''electric'', Ket (Symbol ''n''),
               Bra (Symbol ''n''), DipoleOperator ''B'' ''electric'', Ket (Symbol ''k''),
               Bra (Symbol ''k''), DipoleOperator ''C'' ''electric'', Ket (Symbol ''0'')])
         (Many [''n'', ''k'']) None None None = Inr s
        \<and> order s = 3 \<and> components s = ''ABC'')"
proof -
  let ?T = "[Mul [Pow (Add [TransitionFrequency ''n'', Mul [Integer (- 1), Symbol ''w'']]) (Integer (- 1)),
                Bra (Symbol ''0''), DipoleOperator ''A'' ''electric'', Ket (Symbol ''n''),
                Bra (Symbol ''n''), DipoleOperator ''B'' ''electric'', Ket (Symbol ''0'')],
           Mul [Pow (Add [TransitionFrequency ''n'', Symbol ''w'']) (Integer (- 1)),
                Bra (Symbol ''0''), DipoleOperator ''B'' ''electric'', Ket (Symbol ''n''),
                Bra (Symbol ''n''), DipoleOperator ''A'' ''electric'', Ket (Symbol ''0'')]]"
  let ?F = "[Bra (Symbol ''0''), DipoleOperator ''A'' ''electric'', Ket (Symbol ''n''),
               Bra (Symbol ''n''), DipoleOperator ''B'' ''electric'', Ket (Symbol ''k''),
               Bra (Symbol ''k''), DipoleOperator ''C'' ''electric'', Ket (Symbol ''0'')]"
  obtain s where s: "SumOverStates_init (\<lambda>l t. t) (\<lambda>a b. Add [a, b]) (\<lambda>t. t) (Add ?T)
                       (Many [''n'']) None None None = Inr s"
    by (simp add: SumOverStates_init_def validate_structure_def index_bound_def ABC_def)
  obtain s' where s': "SumOverStates_init (\<lambda>l t. t) (\<lambda>a b. Add [a, b]) (\<lambda>t. t) (Mul ?F)
                       (Many [''n'', ''k'']) None None None = Inr s'"
    by (simp add: SumOverStates_init_def validate_structure_def index_bound_def ABC_def)
  have "order s = 2 \<and> components s = ''AB''"
    using SumOverStates_order_and_components [where terms = ?T and factors = "[]"
        and idx = "Many [''n'']" and subs = "\<lambda>l t. t" and add = "\<lambda>a b. Add [a, b]"
        and doit = "\<lambda>t. t" and corr = None and pp = None and excl = None] s
    unfolding comp_union_card by simp
  moreover have "order s' = 3 \<and> components s' = ''ABC''"
    using SumOverStates_order_and_components [where terms = "[]" and factors = ?F
        and idx = "Many [''n'', ''k'']" and subs = "\<lambda>l t. t" and add = "\<lambda>a b. Add [a, b]"
        and doit = "\<lambda>t. t" and corr = None and pp = None and excl = None] s'
    unfolding comp_union_card by simp
  ultimately show ?thesis
    using s s' by blast
qed

text \<open>
  The claim as stated fails: the product below has the canonical components \<open>A\<close>,
  \<open>B\<close>, yet with the summation index \<open>k\<close>, which it does not bind, the construction
  raises a structure error.
\<close>

theorem SumOverStates_components_counterexample:
  "SumOverStates_init (\<lambda>l t. t) (\<lambda>a b. Add [a, b]) (\<lambda>t. t)
     (Mul [Bra (Symbol ''0''), DipoleOperator ''A'' ''electric'', Ket (Symbol ''n''),
           Bra (Symbol ''n''), DipoleOperator ''B'' ''electric'', Ket (Symbol ''0'')])
     (Many [''k'']) None None None
    = Inl (ValueError IndicesNotCorrect)
   \<and> sort (concat (map comp_of (filter is_DipoleOperator
           [Bra (Symbol ''0''), DipoleOperator ''A'' ''electric'', Ket (Symbol ''n''),
            Bra (Symbol ''n''), DipoleOperator ''B'' ''electric'', Ket (Symbol ''0'')])))
       = take 2 ABC"
  by (simp add: SumOverStates_init_def validate_structure_def index_bound_def ABC_def)

lemma SumOverStates_init_IndicesNotCorrect:
  "SumOverStates_init subs add doit e idx corr pp excl = Inl (ValueError IndicesNotCorrect)
   \<longleftrightarrow> validate_structure e (listify idx) = Inl (ValueError IndicesNotCorrect)"
proof (cases "validate_structure e (listify idx)")
  case (Inl err)
  then show ?thesis by (simp add: SumOverStates_init_def)
next
  case (Inr r)
  obtain ops comps where r: "r = (ops, comps)" by (cases r)
  have "SumOverStates_init subs add doit e idx corr pp excl \<noteq> Inl (ValueError IndicesNotCorrect)"
    using SumOverStates_init_after_validation [of e idx ops comps subs add doit corr pp excl]
      build_sos_via_permutation_errors [of subs add e] Inr r
    by (auto split: if_splits option.splits list.splits sum.splits)
  then show ?thesis using Inr by simp
qed

text \<open>
  C8 (as amended). For a sum of products, or a single product, that holds no
  \<open>DipoleMoment\<close> factor, the construction raises the \<open>ValueError\<close> "Given indices of
  summation are not correct." exactly when some summation index does not occur both as a
  \<open>Bra\<close> and as a \<open>Ket\<close> factor in some additive term (in the product itself for a single
  product); when every index occurs so, lines 124 to 164 raise nothing and the
  construction goes on to the check of the components.
\<close>

theorem SumOverStates_summation_indices:
  "((\<forall>arg \<in> set terms. \<forall>a \<in> set (args arg). \<not> is_DipoleMoment a) \<longrightarrow>
      (SumOverStates_init subs add doit (Add terms) idx corr pp excl
          = Inl (ValueError IndicesNotCorrect)
        \<longleftrightarrow> (\<exists>index \<in> set (listify idx). \<exists>arg \<in> set terms.
               \<not> (Bra (Symbol index) \<in> set (args arg) \<and> Ket (Symbol index) \<in> set (args arg))))
      \<and> ((\<forall>index \<in> set (listify idx). \<forall>arg \<in> set terms.
               Bra (Symbol index) \<in> set (args arg) \<and> Ket (Symbol index) \<in> set (args arg))
           \<longrightarrow> (\<exists>ops comps. validate_structure (Add terms) (listify idx) = Inr (ops, comps))))
   \<and> ((\<forall>a \<in> set factors. \<not> is_DipoleMoment a) \<longrightarrow>
      (SumOverStates_init subs add doit (Mul factors) idx corr pp excl
          = Inl (ValueError IndicesNotCorrect)
        \<longleftrightarrow> (\<exists>index \<in> set (listify idx).
               \<not> (Bra (Symbol index) \<in> set factors \<and> Ket (Symbol index) \<in> set factors)))
      \<and> ((\<forall>index \<in> set (listify idx).
               Bra (Symbol index) \<in> set factors \<and> Ket (Symbol index) \<in> set factors)
           \<longrightarrow> (\<exists>ops comps. validate_structure (Mul factors) (listify idx) = Inr (ops, comps))))"
proof (intro conjI impI)
  assume nm: "\<forall>arg \<in> set terms. \<forall>a \<in> set (args arg). \<not> is_DipoleMoment a"
  obtain ops comps where v: "validate_structure (Add terms) (listify idx) =
     (if \<forall>index \<in> set (listify idx). \<forall>arg \<in> set terms. index_bound index (args arg)
      then Inr (ops, comps) else Inl (ValueError IndicesNotCorrect))"
    using validate_structure_Add [OF nm, of "listify idx"] by blast
  show "SumOverStates_init subs add doit (Add terms) idx corr pp excl
          = Inl (ValueError IndicesNotCorrect)
        \<longleftrightarrow> (\<exists>index \<in> set (listify idx). \<exists>arg \<in> set terms.
               \<not> (Bra (Symbol index) \<in> set (args arg) \<and> Ket (Symbol index) \<in> set (args arg)))"
    unfolding SumOverStates_init_IndicesNotCorrect v by (auto simp: index_bound_def)
  show "\<exists>ops comps. validate_structure (Add terms) (listify idx) = Inr (ops, comps)"
    if "\<forall>index \<in> set (listify idx). \<forall>arg \<in> set terms.
               Bra (Symbol index) \<in> set (args arg) \<and> Ket (Symbol index) \<in> set (args arg)"
    using that unfolding v by (auto simp: index_bound_def)
next
  assume nm: "\<forall>a \<in> set factors. \<not> is_DipoleMoment a"
  obtain ops comps where v: "validate_structure (Mul factors) (listify idx) =
     (if \<forall>index \<in> set (listify idx). index_bound index factors
      then Inr (ops, comps) else Inl (ValueError IndicesNotCorrect))"
    using validate_structure_Mul [OF nm, of "listify idx"] by blast
  show "SumOverStates_init subs add doit (Mul factors) idx corr pp excl
          = Inl (ValueError IndicesNotCorrect)
        \<longleftrightarrow> (\<exists>index \<in> set (listify idx).
               \<not> (Bra (Symbol index) \<in> set factors \<and> Ket (Symbol index) \<in> set factors))"
    unfolding SumOverStates_init_IndicesNotCorrect v by (auto simp: index_bound_def)
  show "\<exists>ops comps. validate_structure (Mul factors) (listify idx) = Inr (ops, comps)"
    if "\<forall>index \<in> set (listify idx).
               Bra (Symbol index) \<in> set factors \<and> Ket (Symbol index) \<in> set factors"
    using that unfolding v by (auto simp: index_bound_def)
qed

theorem SumOverStates_summation_indices_witness:
  "SumOverStates_init (\<lambda>l t. t) (\<lambda>a b. Add [a, b]) (\<lambda>t. t)
     (Add [Mul [Bra (Symbol ''0''), DipoleOperator ''A'' ''electric'', Ket (Symbol ''n''),
                Bra (Symbol ''n''), DipoleOperator ''B'' ''electric'', Ket (Symbol ''0'')],
           Mul [Bra (Symbol ''0''), DipoleOperator ''B'' ''electric'', Ket (Symbol ''k''),
                Bra (Symbol ''n''), DipoleOperator ''A'' ''electric'', Ket (Symbol ''0'')]])
     (Many [''n'']) None None None
    = Inl (ValueError IndicesNotCorrect)
   \<and> (\<exists>ops comps. validate_structure
         (Mul [Bra (Symbol ''0''), DipoleOperator ''A'' ''electric'', Ket (Symbol ''n''),
               Bra (Symbol ''n''), DipoleOperator ''B'' ''electric'', Ket (Symbol ''0'')])
         (listify (Many [''n''])) = Inr (ops, comps))"
  using SumOverStates_summation_indices
    [of "[Mul [Bra (Symbol ''0''), DipoleOperator ''A'' ''electric'', Ket (Symbol ''n''),
                Bra (Symbol ''n''), DipoleOperator ''B'' ''electric'', Ket (Symbol ''0'')],
          Mul [Bra (Symbol ''0''), DipoleOperator ''B'' ''electric'', Ket (Symbol ''k''),
                Bra (Symbol ''n''), DipoleOperator ''A'' ''electric'', Ket (Symbol ''0'')]]"
        "\<lambda>l t. t" "\<lambda>a b. Add [a, b]" "\<lambda>t. t" "Many [''n'']" None None None
        "[Bra (Symbol ''0''), DipoleOperator ''A'' ''electric'', Ket (Symbol ''n''),
          Bra (Symbol ''n''), DipoleOperator ''B'' ''electric'', Ket (Symbol ''0'')]"]
  by simp

text \<open>
  The claim as stated fails: the product below does not bind the index \<open>n\<close>, yet the
  construction raises the \<open>TypeError\<close> for the \<open>DipoleMoment\<close> it holds, which is
  looked for first.
\<close>

theorem SumOverStates_indices_counterexample:
  "SumOverStates_init (\<lambda>l t. t) (\<lambda>a b. Add [a, b]) (\<lambda>t. t)
     (Mul [Bra (Symbol ''0''), DipoleMoment ''A'' ''0'' ''n'' ''electric'', Ket (Symbol ''0'')])
     (Many [''n'']) None None None
    = Inl (TypeError DipoleMomentInSOS)
   \<and> Bra (Symbol ''n'') \<notin> set [Bra (Symbol ''0''), DipoleMoment ''A'' ''0'' ''n'' ''electric'',
                                  Ket (Symbol ''0'')]"
  by (simp add: SumOverStates_init_def validate_structure_def)

section \<open>Properties: the parameter consistency check\<close>





lemma sum_freq_of_raises:
  "\<exists>tup \<in> set corr. \<exists>x. snd tup = PyNumber x \<Longrightarrow> sum_freq_of corr = Inl AttributeError"
proof (induction corr)
  case Nil
  then show ?case by simp
next
  case (Cons tup corr)
  show ?case
  proof (cases "snd tup")
    case (PyNumber x)
    then show ?thesis by simp
  next
    case (SymPyExpr v)
    then have "\<exists>tup \<in> set corr. \<exists>x. snd tup = PyNumber x"
      using Cons.prems by auto
    then have "sum_freq_of corr = Inl AttributeError"
      by (rule Cons.IH)
    then show ?thesis
      using SymPyExpr by simp
  qed
qed









section \<open>Properties: solving the response equations\<close>

lemma resolve_requests_append:
  "resolve_requests solve_response RV bmat exv props fs st (pre @ rest) =
     (case resolve_requests solve_response RV bmat exv props fs st pre of
        (Some err, st') \<Rightarrow> (Some err, st')
      | (None, st') \<Rightarrow> resolve_requests solve_response RV bmat exv props fs st' rest)"
proof (induction pre arbitrary: st)
  case Nil
  then show ?case by simp
next
  case (Cons kv pre)
  obtain r st1 where r: "resolve_request solve_response RV bmat exv props fs st (fst kv) (snd kv) = (r, st1)"
    by (cases "resolve_request solve_response RV bmat exv props fs st (fst kv) (snd kv)")
  show ?case
  proof (cases r)
    case None
    then show ?thesis using r Cons.IH [of st1] by simp
  next
    case (Some err)
    then show ?thesis using r by simp
  qed
qed

text \<open>
  C7. A request of kind \<open>S2S_MTM\<close> whose right-hand side is built from a response vector
  already in \<open>response_dict\<close> and whose damping is not zero raises \<open>NotImplementedError\<close>
  and leaves the state as it was: no call of \<open>solve_response\<close> is dispatched for it and
  nothing is stored for it. So does the loop over the requests when it reaches such a
  request: it stops there with the state reached before it. The operator type of the
  request is one of those \<open>adcc_prop_dict\<close> was filled for (lines 201 to 203).
\<close>

theorem complex_rhs_not_implemented:
  assumes "kind k = S2S_MTM" and "origin k = ResponseVector no" and "damping k \<noteq> 0"
    and "response_dict st no = Some rvecs" and "adcc_prop_dict (op_type k) = Some props"
  shows "resolve_request solve_response RV bmat exv adcc_prop_dict fs st k v
           = (Some (NotImplementedError ComplexRhsNotImplemented), st)
     \<and> (resolve_requests solve_response RV bmat exv adcc_prop_dict fs st0 pre = (None, st) \<longrightarrow>
          resolve_requests solve_response RV bmat exv adcc_prop_dict fs st0 (pre @ (k, v) # post)
            = (Some (NotImplementedError ComplexRhsNotImplemented), st))"
proof -
  have one: "resolve_request solve_response RV bmat exv adcc_prop_dict fs st k v
           = (Some (NotImplementedError ComplexRhsNotImplemented), st)"
    using assms by (simp add: resolve_request_def)
  then show ?thesis
    by (simp add: resolve_requests_append)
qed

theorem complex_rhs_not_implemented_witness:
  "fst (resolve_requests (\<lambda>rhs om gam. rhs) (\<lambda>x. x) (\<lambda>d x. d + x) (\<lambda>i. 0)
          [''electric'' \<mapsto> \<lparr> mtms = (\<lambda>c. 1 :: nat), dips = (\<lambda>c. 2 :: nat), op_dim = 1 \<rparr>] None
          \<lparr> response_dict = Map.empty, solves = [] \<rparr>
          [(\<lparr> kind = MTM, op_type = ''electric'', omega = 1/2, damping = 1/100, origin = NoOrigin \<rparr>, [0]),
           (\<lparr> kind = S2S_MTM, op_type = ''electric'', omega = 1/2, damping = 1/100,
               origin = ResponseVector 0 \<rparr>, [1])])
     = Some (NotImplementedError ComplexRhsNotImplemented)
   \<and> solves (snd (resolve_requests (\<lambda>rhs om gam. rhs) (\<lambda>x. x) (\<lambda>d x. d + x) (\<lambda>i. 0)
          [''electric'' \<mapsto> \<lparr> mtms = (\<lambda>c. 1 :: nat), dips = (\<lambda>c. 2 :: nat), op_dim = 1 \<rparr>] None
          \<lparr> response_dict = Map.empty, solves = [] \<rparr>
          [(\<lparr> kind = MTM, op_type = ''electric'', omega = 1/2, damping = 1/100, origin = NoOrigin \<rparr>, [0]),
           (\<lparr> kind = S2S_MTM, op_type = ''electric'', omega = 1/2, damping = 1/100,
               origin = ResponseVector 0 \<rparr>, [1])]))
     = [(1 :: nat, - (1/2), - (1/100)), (1, - (1/2), - (1/100)), (1, - (1/2), - (1/100))]"
proof -
  let ?props = "\<lparr> mtms = (\<lambda>c. 1 :: nat), dips = (\<lambda>c. 2 :: nat), op_dim = 1 \<rparr>"
  let ?dict = "[''electric'' \<mapsto> ?props]"
  let ?st0 = "\<lparr> response_dict = Map.empty, solves = [] :: (nat \<times> rat \<times> rat) list \<rparr>"
  let ?k1 = "\<lparr> kind = MTM, op_type = ''electric'', omega = 1/2 :: rat, damping = 1/100, origin = NoOrigin \<rparr>"
  let ?k2 = "\<lparr> kind = S2S_MTM, op_type = ''electric'', omega = 1/2 :: rat, damping = 1/100,
               origin = ResponseVector 0 \<rparr>"
  let ?st1 = "solve_components (\<lambda>rhs om gam. rhs) (replicate (op_dim ?props) 3)
                (\<lambda>c. mtms ?props c) (- omega ?k1) (- damping ?k1) [0] ?st0"
  have first: "resolve_requests (\<lambda>rhs om gam. rhs) (\<lambda>x. x) (\<lambda>d x. d + x) (\<lambda>i. 0) ?dict None ?st0
                 [(?k1, [0])] = (None, ?st1)"
    by (simp add: resolve_request_def)
  have rv: "response_dict ?st1 0 = Some \<lparr> shape = replicate (op_dim ?props) 3, dtype = object_dtype,
                        cells = (\<lambda>c. mtms ?props c) \<rparr>"
    by (simp add: solve_components_def)
  have "resolve_requests (\<lambda>rhs om gam. rhs) (\<lambda>x. x) (\<lambda>d x. d + x) (\<lambda>i. 0) ?dict None ?st0
          ([(?k1, [0])] @ (?k2, [1]) # [])
        = (Some (NotImplementedError ComplexRhsNotImplemented), ?st1)"
    using complex_rhs_not_implemented [of ?k2 0 ?st1 _ ?dict ?props "\<lambda>rhs om gam. rhs" "\<lambda>x. x"
        "\<lambda>d x. d + x" "\<lambda>i. 0" None "[1]" ?st0 "[(?k1, [0])]" "[]"] rv first
    by simp
  then show ?thesis
    by (simp add: solve_components_def upt_rec numeral_3_eq_3 del: resolve_requests.simps)
qed

section \<open>Properties: divergences in the Einstein summation path\<close>

lemma reconcile_result:
  assumes "distinct rds" and "\<forall>x \<in> set rds. x \<in> set divs \<longrightarrow> x \<in> set copied"
  shows "reconcile rds divs copied =
     (if \<exists>rd \<in> set rds. rd \<notin> set divs then Inl (ValueError NonDivergentCaseExcluded)
      else Inr (fold remove1 rds copied))"
  using assms
proof (induction rds arbitrary: copied)
  case Nil
  then show ?case by simp
next
  case (Cons rd rds)
  show ?case
  proof (cases "rd \<in> set divs")
    case False
    then show ?thesis by simp
  next
    case True
    then have in_copied: "rd \<in> set copied"
      using Cons.prems(2) by simp
    have d: "distinct rds" and notin: "rd \<notin> set rds"
      using Cons.prems(1) by simp_all
    have keep: "\<forall>x \<in> set rds. x \<in> set divs \<longrightarrow> x \<in> set (remove1 rd copied)"
    proof (intro ballI impI)
      fix x assume x: "x \<in> set rds" "x \<in> set divs"
      then have "x \<noteq> rd" using notin by auto
      moreover have "x \<in> set copied" using Cons.prems(2) x by simp
      ultimately show "x \<in> set (remove1 rd copied)" by simp
    qed
    have "reconcile (rd # rds) divs copied = reconcile rds divs (remove1 rd copied)"
      using True in_copied by simp
    also have "\<dots> = (if \<exists>r \<in> set rds. r \<notin> set divs then Inl (ValueError NonDivergentCaseExcluded)
      else Inr (fold remove1 rds (remove1 rd copied)))"
      by (rule Cons.IH [OF d keep])
    finally show ?thesis
      using True by simp
  qed
qed

lemma mset_fold_remove1: "mset (fold remove1 rds xs) = mset xs - mset rds"
  by (induction rds arbitrary: xs) simp_all

lemma mset_distinct_enumeration:
  assumes "distinct rds" and "set rds = set xs"
  shows "mset rds = mset (remdups xs)"
proof -
  have "mset (remdups rds) = mset (remdups xs)"
    using assms(2) by (simp add: set_eq_iff_mset_remdups_eq)
  then show ?thesis
    using assms(1) by (simp add: distinct_remdups_id)
qed

lemma distinct_subset_mset:
  "distinct xs \<Longrightarrow> set xs \<subseteq> set ys \<Longrightarrow> mset xs \<subseteq># mset ys"
  by (metis Diff_eq_empty_iff_mset diff_shunt_var mset.simps(1)
    mset_minus_list_mset set_empty2 set_minus_list_mset_distinct)

lemma term_contribution_after_removal:
  assumes "build_einsum np_delete final_state excluded_cases einsum_list ([], [], [], [])
             = Inr (einsum_left, einsum_right, array_list, removed)"
    and "distinct (list_of_set removed)" and "set (list_of_set removed) = set removed"
  shows "term_contribution np_delete list_of_set contract final_state excluded_cases einsum_list
           factor divergences =
     (if \<exists>rd \<in> set removed. rd \<notin> set divergences
      then Inl (ValueError NonDivergentCaseExcluded)
      else if mset divergences - mset (remdups removed) \<noteq> {#}
      then Inl (ZeroDivisionError DivergencesRemain)
      else contract factor (einsum_string einsum_left einsum_right) array_list)"
proof -
  let ?rds = "list_of_set removed"
  have rec: "reconcile ?rds divergences divergences =
     (if \<exists>rd \<in> set ?rds. rd \<notin> set divergences then Inl (ValueError NonDivergentCaseExcluded)
      else Inr (fold remove1 ?rds divergences))"
    by (rule reconcile_result [OF assms(2)]) simp
  have rem: "mset (fold remove1 ?rds divergences) = mset divergences - mset (remdups removed)"
    using mset_distinct_enumeration [OF assms(2,3)] by (simp add: mset_fold_remove1)
  have empty_iff: "fold remove1 ?rds divergences = [] \<longleftrightarrow>
                   mset divergences - mset (remdups removed) = {#}"
    using rem by (metis mset_zero_iff)
  have "divergences = [] \<Longrightarrow> mset divergences - mset (remdups removed) = {#}"
    by simp
  then have nonempty: "mset divergences - mset (remdups removed) \<noteq> {#} \<Longrightarrow> divergences \<noteq> []"
    by blast
  have "term_contribution np_delete list_of_set contract final_state excluded_cases einsum_list
           factor divergences =
        (case reconcile ?rds divergences divergences of
             Inl err \<Rightarrow> Inl err
           | Inr divergences_copied \<Rightarrow>
               if divergences \<noteq> [] \<and> divergences_copied \<noteq> []
               then Inl (ZeroDivisionError DivergencesRemain)
               else contract factor (einsum_string einsum_left einsum_right) array_list)"
    by (simp add: term_contribution_def assms(1))
  also have "\<dots> =
     (if \<exists>rd \<in> set removed. rd \<notin> set divergences
      then Inl (ValueError NonDivergentCaseExcluded)
      else if mset divergences - mset (remdups removed) \<noteq> {#}
      then Inl (ZeroDivisionError DivergencesRemain)
      else contract factor (einsum_string einsum_left einsum_right) array_list)"
    unfolding rec assms(3) using empty_iff nonempty by auto
  finally show ?thesis .
qed

lemma remaining_empty_iff:
  assumes "\<forall>rd \<in> set removed. rd \<in> set divergences"
  shows "mset divergences - mset (remdups removed) = {#} \<longleftrightarrow>
         mset divergences = mset (remdups removed)"
proof -
  have "mset (remdups removed) \<subseteq># mset divergences"
    using assms by (intro distinct_subset_mset) auto
  then show ?thesis
    by (metis Diff_eq_empty_iff_mset subset_mset.antisym subset_mset.order_refl)
qed

text \<open>
  C5. For a term whose excluded cases have been deleted from its arrays, \<open>removed\<close> being
  the cases deleted: when some case deleted is not among the divergences recorded, the
  \<open>ValueError\<close> of a wrongly excluded case is raised; when every case deleted is a
  recorded divergence but the divergences are not, one for one, the distinct cases
  deleted, \<open>ZeroDivisionError\<close> is raised; and the contraction is computed, to be added
  to the result tensor, only in the case left, where the divergences recorded are exactly
  the distinct cases deleted. The order in which \<open>list(set(...))\<close> lists the cases
  deleted does not matter.
\<close>

theorem divergence_reconciliation:
  assumes "build_einsum np_delete final_state excluded_cases einsum_list ([], [], [], [])
             = Inr (einsum_left, einsum_right, array_list, removed)"
    and "distinct (list_of_set removed)" and "set (list_of_set removed) = set removed"
  shows "((\<exists>rd \<in> set removed. rd \<notin> set divergences) \<longrightarrow>
            term_contribution np_delete list_of_set contract final_state excluded_cases
              einsum_list factor divergences = Inl (ValueError NonDivergentCaseExcluded))
     \<and> ((\<forall>rd \<in> set removed. rd \<in> set divergences)
          \<and> mset divergences \<noteq> mset (remdups removed) \<longrightarrow>
            term_contribution np_delete list_of_set contract final_state excluded_cases
              einsum_list factor divergences = Inl (ZeroDivisionError DivergencesRemain))
     \<and> ((\<forall>rd \<in> set removed. rd \<in> set divergences)
          \<and> mset divergences = mset (remdups removed) \<longrightarrow>
            term_contribution np_delete list_of_set contract final_state excluded_cases
              einsum_list factor divergences
            = contract factor (einsum_string einsum_left einsum_right) array_list)
     \<and> (\<forall>r. term_contribution np_delete list_of_set contract final_state excluded_cases
              einsum_list factor divergences = Inr r \<longrightarrow>
            mset divergences = mset (remdups removed))"
proof -
  have tc: "term_contribution np_delete list_of_set contract final_state excluded_cases einsum_list
           factor divergences =
     (if \<exists>rd \<in> set removed. rd \<notin> set divergences
      then Inl (ValueError NonDivergentCaseExcluded)
      else if mset divergences - mset (remdups removed) \<noteq> {#}
      then Inl (ZeroDivisionError DivergencesRemain)
      else contract factor (einsum_string einsum_left einsum_right) array_list)"
    using assms by (rule term_contribution_after_removal)
  show ?thesis
  proof (cases "\<exists>rd \<in> set removed. rd \<notin> set divergences")
    case True
    then show ?thesis
      using tc by auto
  next
    case False
    then have all: "\<forall>rd \<in> set removed. rd \<in> set divergences" by blast
    show ?thesis
    proof (cases "mset divergences = mset (remdups removed)")
      case True
      then show ?thesis
        using tc all remaining_empty_iff [OF all] by auto
    next
      case False
      then have "mset divergences - mset (remdups removed) \<noteq> {#}"
        using remaining_empty_iff [OF all] by blast
      then show ?thesis
        using tc all False by auto
    qed
  qed
qed

theorem divergence_reconciliation_witness:
  "term_contribution (\<lambda>arr i axis. take (nat i) arr @ drop (Suc (nat i)) arr) remdups
      (\<lambda>f s arrs. Inr (map ((*) f) (concat arrs))) (Some (''f'', 0)) [(''k'', ''f'')]
      [(''k'', ''B'', [5, 7 :: int]), ('''', ''A'', [3]), (''k'', '''', [0, 2])] 1 [(''k'', 0)]
     = Inr [7, 3, 2]
   \<and> term_contribution (\<lambda>arr i axis. take (nat i) arr @ drop (Suc (nat i)) arr) remdups
      (\<lambda>f s arrs. Inr (map ((*) f) (concat arrs))) (Some (''f'', 0)) []
      [(''k'', ''B'', [5, 7 :: int]), ('''', ''A'', [3]), (''k'', '''', [0, 2])] 1 [(''k'', 0)]
     = Inl (ZeroDivisionError DivergencesRemain)
   \<and> term_contribution (\<lambda>arr i axis. take (nat i) arr @ drop (Suc (nat i)) arr) remdups
      (\<lambda>f s arrs. Inr (map ((*) f) (concat arrs))) (Some (''f'', 0)) [(''k'', ''f'')]
      [(''k'', ''B'', [5, 7 :: int]), ('''', ''A'', [3]), (''k'', '''', [1, 2])] 1 []
     = Inl (ValueError NonDivergentCaseExcluded)"
proof -
  let ?del = "\<lambda>(arr :: int list) (i :: int) (axis :: nat). take (nat i) arr @ drop (Suc (nat i)) arr"
  let ?con = "\<lambda>(f :: int) (s :: string) (arrs :: int list list). Inr (map ((*) f) (concat arrs)) :: error + int list"
  have b1: "build_einsum ?del (Some (''f'', 0)) [(''k'', ''f'')]
              [(''k'', ''B'', [5, 7]), ('''', ''A'', [3]), (''k'', '''', [0, 2])] ([], [], [], [])
            = Inr (''kB,A,k,'', ''BA'', [[7], [3], [2]], [(''k'', 0), (''k'', 0)])"
    by (simp add: sublist_code)
  have b2: "build_einsum ?del (Some (''f'', 0)) []
              [(''k'', ''B'', [5, 7]), ('''', ''A'', [3]), (''k'', '''', [0, 2])] ([], [], [], [])
            = Inr (''kB,A,k,'', ''BA'', [[5, 7], [3], [0, 2]], [])"
    by simp
  have b3: "build_einsum ?del (Some (''f'', 0)) [(''k'', ''f'')]
              [(''k'', ''B'', [5, 7]), ('''', ''A'', [3]), (''k'', '''', [1, 2])] ([], [], [], [])
            = Inr (''kB,A,k,'', ''BA'', [[7], [3], [2]], [(''k'', 0), (''k'', 0)])"
    by (simp add: sublist_code)
  show ?thesis
    using divergence_reconciliation [OF b1, of remdups "[(''k'', 0)]" ?con 1]
      divergence_reconciliation [OF b2, of remdups "[(''k'', 0)]" ?con 1]
      divergence_reconciliation [OF b3, of remdups "[]" ?con 1]
    by simp
qed

section \<open>Properties: result tensors of the assembly by substitution\<close>

lemma accumulate_terms_shape:
  "accumulate_terms S num c ts t = Inr t' \<Longrightarrow> shape t' = shape t \<and> dtype t' = dtype t"
proof (induction ts arbitrary: t)
  case Nil
  then show ?case by auto
next
  case (Cons tm ts)
  then obtain res where res: "S c tm = Inr res" "res \<noteq> ComplexInfinity"
    and rest: "accumulate_terms S num c ts (t\<lparr>cells := (cells t)(c := cells t c + num res)\<rparr>) = Inr t'"
    by (auto split: sum.splits if_splits)
  show ?case
    using Cons.IH [OF rest] by simp
qed

lemma copy_to_permutations_shape:
  "shape (copy_to_permutations ps c t) = shape t \<and> dtype (copy_to_permutations ps c t) = dtype t"
  by (induction ps arbitrary: t) simp_all

lemma assemble_components_shape:
  "assemble_components S num symm ts cs t = Inr t' \<Longrightarrow> shape t' = shape t \<and> dtype t' = dtype t"
proof (induction cs arbitrary: t)
  case Nil
  then show ?case by auto
next
  case (Cons c cs)
  then obtain t1 where t1: "accumulate_terms S num c ts t = Inr t1"
    and rest: "assemble_components S num symm ts cs
                 (if symm then copy_to_permutations (permutations c) c t1 else t1) = Inr t'"
    by (auto split: sum.splits)
  show ?case
    using Cons.IH [OF rest] accumulate_terms_shape [OF t1] copy_to_permutations_shape [of "permutations c" c t1]
    by (simp split: if_splits)
qed

lemma assemble_isr_shape:
  assumes "assemble_isr S num n gamma_val symm root_expr = Inr T"
  shows "shape T = replicate n 3 \<and> dtype T = (if gamma_val = 0 then float_dtype else complex_dtype)"
  using assemble_components_shape [OF assms [unfolded assemble_isr_def]]
  by (simp add: np_zeros_def result_dtype_def)

lemma assemble_terms_fast_shape:
  "assemble_terms_fast bel del los con iadd fs ex ts t = Inr t' \<Longrightarrow>
   shape t' = shape t \<and> dtype t' = dtype t"
proof (induction ts arbitrary: t)
  case Nil
  then show ?case by auto
next
  case (Cons tm ts)
  then obtain new_cells where
    rest: "assemble_terms_fast bel del los con iadd fs ex ts (t\<lparr>cells := new_cells\<rparr>) = Inr t'"
    by (auto split: sum.splits prod.splits)
  show ?case
    using Cons.IH [OF rest] by simp
qed

lemma assemble_sos_fast_shape:
  assumes "assemble_sos_fast bel del los con iadd n gamma_val fs ex ts = Inr T"
  shows "shape T = replicate n 3 \<and> dtype T = (if gamma_val = 0 then float_dtype else complex_dtype)"
  using assemble_terms_fast_shape [OF assms [unfolded assemble_sos_fast_def]]
  by (simp add: np_zeros_def result_dtype_def)

lemma cells_update_eq: "f = g \<Longrightarrow> t\<lparr>cells := f\<rparr> = t\<lparr>cells := g\<rparr>"
  by simp

lemma accumulate_terms_ok:
  assumes "\<forall>t \<in> set ts. S c t = Inr (r c t) \<and> r c t \<noteq> ComplexInfinity"
  shows "accumulate_terms S num c ts t =
           Inr (t\<lparr>cells := (cells t)(c := foldl (+) (cells t c) (map (\<lambda>t. num (r c t)) ts))\<rparr>)"
  using assms
proof (induction ts arbitrary: t)
  case Nil
  then show ?case by simp
next
  case (Cons tm ts)
  have tm: "S c tm = Inr (r c tm)" "r c tm \<noteq> ComplexInfinity"
    using Cons.prems by simp_all
  have rest: "\<forall>t \<in> set ts. S c t = Inr (r c t) \<and> r c t \<noteq> ComplexInfinity"
    using Cons.prems by simp
  have "accumulate_terms S num c (tm # ts) t =
        accumulate_terms S num c ts (t\<lparr>cells := (cells t)(c := cells t c + num (r c tm))\<rparr>)"
    using tm by simp
  also have "\<dots> = Inr (t\<lparr>cells := (cells t)(c := foldl (+) (cells t c) (map (\<lambda>t. num (r c t)) (tm # ts)))\<rparr>)"
    unfolding Cons.IH [OF rest, of "t\<lparr>cells := (cells t)(c := cells t c + num (r c tm))\<rparr>"]
    by simp
  finally show ?case .
qed

lemma accumulate_terms_returns:
  "accumulate_terms S num c ts t = Inr t' \<Longrightarrow>
   \<forall>tm \<in> set ts. \<exists>res. S c tm = Inr res \<and> res \<noteq> ComplexInfinity"
proof (induction ts arbitrary: t)
  case Nil
  then show ?case by simp
next
  case (Cons tm ts)
  then obtain res where res: "S c tm = Inr res" "res \<noteq> ComplexInfinity"
    and rest: "accumulate_terms S num c ts (t\<lparr>cells := (cells t)(c := cells t c + num res)\<rparr>) = Inr t'"
    by (auto split: sum.splits if_splits)
  show ?case
    using Cons.IH [OF rest] res by simp
qed


lemma assemble_components_returns:
  "assemble_components S num symm ts cs t = Inr t' \<Longrightarrow>
   \<forall>c \<in> set cs. \<forall>tm \<in> set ts. \<exists>res. S c tm = Inr res \<and> res \<noteq> ComplexInfinity"
proof (induction cs arbitrary: t)
  case Nil
  then show ?case by simp
next
  case (Cons c cs)
  then obtain t1 where t1: "accumulate_terms S num c ts t = Inr t1"
    and rest: "assemble_components S num symm ts cs
                 (if symm then copy_to_permutations (permutations c) c t1 else t1) = Inr t'"
    by (auto split: sum.splits)
  show ?case
    using Cons.IH [OF rest] accumulate_terms_returns [OF t1] by simp
qed


lemma copy_to_permutations_cells:
  "copy_to_permutations ps c t = t\<lparr>cells := (\<lambda>p. if p \<in> set ps then cells t c else cells t p)\<rparr>"
proof (induction ps arbitrary: t)
  case Nil
  then show ?case by simp
next
  case (Cons p0 ps)
  show ?case
    unfolding copy_to_permutations.simps Cons.IH
    by (simp, intro cells_update_eq ext) auto
qed

lemma cwr_elements:
  "c \<in> set (combinations_with_replacement xs n) \<Longrightarrow> length c = n \<and> set c \<subseteq> set xs"
proof (induction xs n arbitrary: c rule: combinations_with_replacement.induct)
  case (1 xs)
  then show ?case by simp
next
  case (2 r)
  then show ?case by simp
next
  case (3 x xs r)
  from "3.prems" consider c' where "c = x # c'" "c' \<in> set (combinations_with_replacement (x # xs) r)"
    | "c \<in> set (combinations_with_replacement xs (Suc r))"
    by auto
  then show ?case
  proof cases
    case 1
    have "length c' = r \<and> set c' \<subseteq> set (x # xs)" using 1(2) by (rule "3.IH"(1))
    then show ?thesis using 1(1) by simp
  next
    case 2
    have "length c = Suc r \<and> set c \<subseteq> set xs" using 2 by (rule "3.IH"(2))
    then show ?thesis by auto
  qed
qed

lemma cwr_sorted:
  "sorted xs \<Longrightarrow> c \<in> set (combinations_with_replacement xs n) \<Longrightarrow> sorted c"
proof (induction xs n arbitrary: c rule: combinations_with_replacement.induct)
  case (1 xs)
  then show ?case by simp
next
  case (2 r)
  then show ?case by simp
next
  case (3 x xs r)
  from "3.prems"(2) consider c' where "c = x # c'" "c' \<in> set (combinations_with_replacement (x # xs) r)"
    | "c \<in> set (combinations_with_replacement xs (Suc r))"
    by auto
  then show ?case
  proof cases
    case 1
    have "sorted c'" using "3.prems"(1) 1(2) by (rule "3.IH"(1))
    moreover have "set c' \<subseteq> set (x # xs)"
      using cwr_elements [OF 1(2)] by simp
    then have "\<forall>y \<in> set c'. x \<le> y"
      using "3.prems"(1) by auto
    ultimately show ?thesis using 1(1) by simp
  next
    case 2
    have "sorted xs" using "3.prems"(1) by simp
    then show ?thesis using 2 by (rule "3.IH"(2))
  qed
qed

lemma cwr_distinct:
  "distinct xs \<Longrightarrow> distinct (combinations_with_replacement xs n)"
proof (induction xs n rule: combinations_with_replacement.induct)
  case (1 xs)
  then show ?case by simp
next
  case (2 r)
  then show ?case by simp
next
  case (3 x xs r)
  have "distinct (combinations_with_replacement (x # xs) r)"
    using "3.prems" by (rule "3.IH"(1))
  then have d1: "distinct (map ((#) x) (combinations_with_replacement (x # xs) r))"
    by (simp add: distinct_map)
  have "distinct xs" using "3.prems" by simp
  then have d2: "distinct (combinations_with_replacement xs (Suc r))"
    by (rule "3.IH"(2))
  have "c \<notin> set (map ((#) x) (combinations_with_replacement (x # xs) r))"
    if "c \<in> set (combinations_with_replacement xs (Suc r))" for c
  proof -
    have "length c = Suc r" "set c \<subseteq> set xs" using cwr_elements [OF that] by simp_all
    then obtain y c' where "c = y # c'" "y \<in> set xs" by (cases c) auto
    then have "y \<noteq> x" using "3.prems" by auto
    then show ?thesis using \<open>c = y # c'\<close> by auto
  qed
  then have "set (map ((#) x) (combinations_with_replacement (x # xs) r))
             \<inter> set (combinations_with_replacement xs (Suc r)) = {}"
    by blast
  then show ?case
    using d1 d2 by simp
qed

lemma cwr_complete:
  "sorted xs \<Longrightarrow> distinct xs \<Longrightarrow> length c = n \<Longrightarrow> sorted c \<Longrightarrow> set c \<subseteq> set xs \<Longrightarrow>
   c \<in> set (combinations_with_replacement xs n)"
proof (induction xs n arbitrary: c rule: combinations_with_replacement.induct)
  case (1 xs)
  then show ?case by simp
next
  case (2 r)
  then show ?case by (cases c) simp_all
next
  case (3 x xs r)
  obtain y c' where c: "c = y # c'" using "3.prems"(3) by (cases c) simp_all
  show ?case
  proof (cases "y = x")
    case True
    have "sorted c'" "length c' = r" "set c' \<subseteq> set (x # xs)"
      using "3.prems"(3,4,5) c by simp_all
    then have "c' \<in> set (combinations_with_replacement (x # xs) r)"
      using "3.IH"(1) [of c'] "3.prems"(1,2) by blast
    then show ?thesis using c True by simp
  next
    case False
    have y: "y \<in> set xs" using "3.prems"(5) c False by simp
    have "z \<in> set xs" if z: "z \<in> set c" for z
    proof (rule ccontr)
      assume "z \<notin> set xs"
      then have "z = x" using "3.prems"(5) z by auto
      moreover have "y \<le> z" using "3.prems"(4) c z by auto
      moreover have "x \<le> y" using "3.prems"(1) y by simp
      ultimately show False using False by simp
    qed
    then have sub: "set c \<subseteq> set xs" by blast
    have "sorted xs" "distinct xs" using "3.prems"(1,2) by simp_all
    then have "c \<in> set (combinations_with_replacement xs (Suc r))"
      using "3.IH"(2) [of c] "3.prems"(3,4) sub by blast
    then show ?thesis by simp
  qed
qed

lemma sort_eq_iff_mset:
  fixes p c :: "nat list"
  shows "sort p = sort c \<longleftrightarrow> mset p = mset c"
proof
  assume "sort p = sort c"
  then have "mset (sort p) = mset (sort c)" by simp
  then show "mset p = mset c" by simp
next
  assume "mset p = mset c"
  then have "mset (sort c) = mset p" by simp
  then show "sort p = sort c"
    using properties_for_sort [of "sort c" p] by simp
qed

lemma permutation_of_sorted:
  fixes p c :: "nat list"
  assumes "sorted c"
  shows "p \<in> set (permutations c) \<longleftrightarrow> sort p = c"
proof -
  have "sort c = c" using assms by (simp add: sort_key_id_if_sorted)
  then show ?thesis
    using sort_eq_iff_mset [of p c] by (simp add: set_permutations)
qed

lemma tensor_components_symmetric:
  "set (tensor_components True n) = {c. length c = n \<and> sorted c \<and> set c \<subseteq> set [0, 1, 2]}"
  "distinct (tensor_components True n)"
proof -
  have s: "sorted [0, 1, 2 :: nat]" and d: "distinct [0, 1, 2 :: nat]" by simp_all
  have tc: "tensor_components True n = combinations_with_replacement [0, 1, 2] n"
    by (simp only: tensor_components_def if_True)
  show "set (tensor_components True n) = {c. length c = n \<and> sorted c \<and> set c \<subseteq> set [0, 1, 2]}"
  proof (rule set_eqI)
    fix c :: "nat list"
    show "c \<in> set (tensor_components True n)
          \<longleftrightarrow> c \<in> {c. length c = n \<and> sorted c \<and> set c \<subseteq> set [0, 1, 2]}"
      unfolding tc mem_Collect_eq
      using cwr_elements [of c "[0, 1, 2]" n] cwr_sorted [OF s, of c n] cwr_complete [OF s d, of c n]
      by blast
  qed
  show "distinct (tensor_components True n)"
    unfolding tc using d by (rule cwr_distinct)
qed

lemma assemble_components_symmetric:
  fixes num :: "expr \<Rightarrow> 'v::plus"
  assumes "distinct cs" and "\<forall>c \<in> set cs. sorted c"
    and "\<forall>c \<in> set cs. \<forall>tm \<in> set ts. S c tm = Inr (r c tm) \<and> r c tm \<noteq> ComplexInfinity"
  shows "assemble_components S num True ts cs t =
           Inr (t\<lparr>cells := (\<lambda>p. if sort p \<in> set cs
                               then foldl (+) (cells t (sort p)) (map (\<lambda>tm. num (r (sort p) tm)) ts)
                               else cells t p)\<rparr>)"
  using assms
proof (induction cs arbitrary: t)
  case Nil
  then show ?case by simp
next
  case (Cons c cs)
  let ?F = "\<lambda>t c. foldl (+) (cells t c) (map (\<lambda>tm. num (r c tm)) ts)"
  have c_sorted: "sorted c" and c_new: "c \<notin> set cs" and d: "distinct cs"
    and sorted_cs: "\<forall>c \<in> set cs. sorted c"
    using Cons.prems(1,2) by simp_all
  have ok_c: "\<forall>tm \<in> set ts. S c tm = Inr (r c tm) \<and> r c tm \<noteq> ComplexInfinity"
    and ok_cs: "\<forall>c \<in> set cs. \<forall>tm \<in> set ts. S c tm = Inr (r c tm) \<and> r c tm \<noteq> ComplexInfinity"
    using Cons.prems(3) by simp_all
  have sort_c: "sort c = c"
    using c_sorted by (simp add: sort_key_id_if_sorted)
  define t1 where "t1 = t\<lparr>cells := (cells t)(c := ?F t c)\<rparr>"
  define t2 where "t2 = t\<lparr>cells := (\<lambda>p. if sort p = c then ?F t c else cells t p)\<rparr>"
  have acc: "accumulate_terms S num c ts t = Inr t1"
    unfolding t1_def using ok_c by (rule accumulate_terms_ok)
  have copy: "copy_to_permutations (permutations c) c t1 = t2"
  proof -
    have "(\<lambda>p. if p \<in> set (permutations c) then cells t1 c else cells t1 p)
          = (\<lambda>p. if sort p = c then ?F t c else cells t p)"
    proof (rule ext)
      fix p
      show "(if p \<in> set (permutations c) then cells t1 c else cells t1 p)
            = (if sort p = c then ?F t c else cells t p)"
      proof (cases "sort p = c")
        case True
        then show ?thesis
          using permutation_of_sorted [OF c_sorted, of p] by (simp add: t1_def)
      next
        case False
        then have "p \<noteq> c" using sort_c by auto
        then show ?thesis
          using False permutation_of_sorted [OF c_sorted, of p] by (simp add: t1_def)
      qed
    qed
    then show ?thesis
      unfolding copy_to_permutations_cells t2_def by (simp add: t1_def)
  qed
  have step: "assemble_components S num True ts (c # cs) t = assemble_components S num True ts cs t2"
    using acc copy by simp
  have IH: "assemble_components S num True ts cs t2 =
           Inr (t2\<lparr>cells := (\<lambda>p. if sort p \<in> set cs then ?F t2 (sort p) else cells t2 p)\<rparr>)"
    using d sorted_cs ok_cs by (rule Cons.IH)
  have "(\<lambda>p. if sort p \<in> set cs then ?F t2 (sort p) else cells t2 p)
        = (\<lambda>p. if sort p \<in> set (c # cs) then ?F t (sort p) else cells t p)"
  proof (rule ext)
    fix p
    show "(if sort p \<in> set cs then ?F t2 (sort p) else cells t2 p)
          = (if sort p \<in> set (c # cs) then ?F t (sort p) else cells t p)"
    proof (cases "sort p \<in> set cs")
      case True
      then have "sort p \<noteq> c" using c_new by auto
      moreover have "sort (sort p) = sort p"
        by (simp add: sort_key_id_if_sorted)
      ultimately have "cells t2 (sort p) = cells t (sort p)"
        by (simp add: t2_def)
      then show ?thesis using True by simp
    next
      case False
      then show ?thesis by (simp add: t2_def)
    qed
  qed
  then have "t2\<lparr>cells := (\<lambda>p. if sort p \<in> set cs then ?F t2 (sort p) else cells t2 p)\<rparr>
             = t\<lparr>cells := (\<lambda>p. if sort p \<in> set (c # cs) then ?F t (sort p) else cells t p)\<rparr>"
    by (simp add: t2_def)
  then show ?case
    using step IH by simp
qed

lemma assemble_isr_symmetric_cells:
  fixes num :: "expr \<Rightarrow> 'v::{zero,plus}"
  assumes "assemble_isr S num n gamma_val True root_expr = Inr T"
  shows "cells T = (\<lambda>p. if sort p \<in> set (tensor_components True n)
                        then foldl (+) 0 (map (\<lambda>tm. num (projr (S (sort p) tm))) (term_list_of root_expr))
                        else 0)"
proof -
  let ?cs = "tensor_components True n"
  let ?ts = "term_list_of root_expr"
  let ?t0 = "np_zeros (replicate n 3) (result_dtype gamma_val) :: 'v ndarray"
  have run: "assemble_components S num True ?ts ?cs ?t0 = Inr T"
    using assms by (simp add: assemble_isr_def)
  have "\<forall>c \<in> set ?cs. \<forall>tm \<in> set ?ts. \<exists>res. S c tm = Inr res \<and> res \<noteq> ComplexInfinity"
    using run by (rule assemble_components_returns)
  then have ok: "\<forall>c \<in> set ?cs. \<forall>tm \<in> set ?ts.
                   S c tm = Inr (projr (S c tm)) \<and> projr (S c tm) \<noteq> ComplexInfinity"
    by fastforce
  have srt: "\<forall>c \<in> set ?cs. sorted c"
    by (simp add: tensor_components_symmetric(1))
  have "assemble_components S num True ?ts ?cs ?t0 =
           Inr (?t0\<lparr>cells := (\<lambda>p. if sort p \<in> set ?cs
                               then foldl (+) (cells ?t0 (sort p)) (map (\<lambda>tm. num (projr (S (sort p) tm))) ?ts)
                               else cells ?t0 p)\<rparr>)"
    using tensor_components_symmetric(2) srt ok
    by (rule assemble_components_symmetric [where r = "\<lambda>c tm. projr (S c tm)"])
  then have "T = ?t0\<lparr>cells := (\<lambda>p. if sort p \<in> set ?cs
                               then foldl (+) (cells ?t0 (sort p)) (map (\<lambda>tm. num (projr (S (sort p) tm))) ?ts)
                               else cells ?t0 p)\<rparr>"
    using run by simp
  then have "cells T = (\<lambda>p. if sort p \<in> set ?cs
                               then foldl (+) (cells ?t0 (sort p)) (map (\<lambda>tm. num (projr (S (sort p) tm))) ?ts)
                               else cells ?t0 p)"
    by simp
  then show ?thesis
    by (simp add: np_zeros_def cong: if_cong)
qed

text \<open>
  C10. When the assembly of \<open>evaluate_property_isr\<close> runs with \<open>symmetric=True\<close> and
  returns a tensor, any two index tuples that are permutations of each other hold the
  same value. The component tuples for which the terms are evaluated are non-decreasing,
  and the cell of every index tuple over \<open>{0,1,2}\<close> of the tensor's order holds the sum
  accumulated for the sorted tuple.
\<close>

theorem symmetric_tensor_cells:
  fixes num :: "expr \<Rightarrow> 'v::{zero,plus}"
  assumes "assemble_isr S num n gamma_val True root_expr = Inr T" and "mset p = mset c"
  shows "cells T p = cells T c
     \<and> (\<forall>q \<in> set (tensor_components True n). sorted q)
     \<and> (\<forall>q. length q = n \<and> set q \<subseteq> {0, 1, 2} \<longrightarrow>
            sort q \<in> set (tensor_components True n)
            \<and> cells T q = foldl (+) 0
                 (map (\<lambda>tm. num (projr (S (sort q) tm))) (term_list_of root_expr)))"
proof (intro conjI ballI allI impI)
  note cells = assemble_isr_symmetric_cells [OF assms(1)]
  have "sort p = sort c"
    using assms(2) by (simp add: sort_eq_iff_mset)
  then show "cells T p = cells T c"
    unfolding cells by simp
  show "sorted q" if "q \<in> set (tensor_components True n)" for q
    using that by (simp add: tensor_components_symmetric(1))
  fix q :: "nat list"
  assume q: "length q = n \<and> set q \<subseteq> {0, 1, 2}"
  then show member: "sort q \<in> set (tensor_components True n)"
    by (simp add: tensor_components_symmetric(1))
  show "cells T q = foldl (+) 0
                 (map (\<lambda>tm. num (projr (S (sort q) tm))) (term_list_of root_expr))"
    unfolding cells using member by simp
qed

lemma assemble_isr_symmetric_returns:
  fixes num :: "expr \<Rightarrow> 'v::{zero,plus}"
  assumes "\<forall>c \<in> set (tensor_components True n). \<forall>tm \<in> set (term_list_of root_expr).
             S c tm = Inr (r c tm) \<and> r c tm \<noteq> ComplexInfinity"
  shows "\<exists>T. assemble_isr S num n gamma_val True root_expr = Inr T"
proof -
  have srt: "\<forall>c \<in> set (tensor_components True n). sorted c"
    by (simp add: tensor_components_symmetric(1))
  show ?thesis
    unfolding assemble_isr_def
    using assemble_components_symmetric [OF tensor_components_symmetric(2) srt assms] by blast
qed

theorem symmetric_tensor_cells_witness:
  "\<exists>T. assemble_isr (\<lambda>c tm. Inr (Integer (3 * int (c ! 0) + int (c ! 1))))
          (\<lambda>e. case e of Integer i \<Rightarrow> i | _ \<Rightarrow> 0) 2 0 True (Mul []) = Inr T
       \<and> cells T [1, 0] = cells T [0, 1] \<and> cells T [1, 0] = 1"
proof -
  let ?S = "\<lambda>(c :: nat list) (tm :: expr). Inr (Integer (3 * int (c ! 0) + int (c ! 1))) :: error + expr"
  let ?num = "\<lambda>e. case e of Integer i \<Rightarrow> i | _ \<Rightarrow> (0 :: int)"
  have "\<forall>c \<in> set (tensor_components True 2). \<forall>tm \<in> set (term_list_of (Mul [])).
             ?S c tm = Inr (Integer (3 * int (c ! 0) + int (c ! 1)))
             \<and> Integer (3 * int (c ! 0) + int (c ! 1)) \<noteq> ComplexInfinity"
    by simp
  then obtain T where T: "assemble_isr ?S ?num 2 0 True (Mul []) = Inr T"
    using assemble_isr_symmetric_returns
      [of 2 "Mul []" ?S "\<lambda>c tm. Integer (3 * int (c ! 0) + int (c ! 1))" ?num 0]
    by blast
  have perm: "mset [1, 0 :: nat] = mset [0, 1]"
    by simp
  have "cells T [1, 0] = cells T [0, 1]
        \<and> cells T [1, 0] = foldl (+) 0 (map (\<lambda>tm. ?num (projr (?S (sort [1, 0]) tm))) (term_list_of (Mul [])))"
    using symmetric_tensor_cells [OF T perm] by simp
  then have "cells T [1, 0] = cells T [0, 1] \<and> cells T [1, 0] = 1"
    by (simp add: term_list_of_def)
  then show ?thesis
    using T by blast
qed

section \<open>Properties: shape and element type of the result\<close>

text \<open>
  C9. Whenever the assembly of \<open>evaluate_property_isr\<close> or of
  \<open>evaluate_property_sos_fast\<close> returns, what it returns is the array allocated at its
  start and updated in place: its shape is \<open>(3,)*order\<close> for the order it was given (the
  order of the \<open>SumOverStates\<close> object), and its element type is float when
  \<open>gamma_val\<close> is zero and complex otherwise.
\<close>

theorem result_shape_and_dtype:
  "(assemble_isr S num n gamma_val symm root_expr = Inr T \<longrightarrow>
      shape T = replicate n 3
      \<and> dtype T = (if gamma_val = 0 then float_dtype else complex_dtype))
   \<and> (assemble_sos_fast build_einsum_list np_delete list_of_set contract iadd n gamma_val
         final_state excluded_cases term_list = Inr T' \<longrightarrow>
      shape T' = replicate n 3
      \<and> dtype T' = (if gamma_val = 0 then float_dtype else complex_dtype))"
  using assemble_isr_shape [of S num n gamma_val symm root_expr T]
    assemble_sos_fast_shape [of build_einsum_list np_delete list_of_set contract iadd n gamma_val
      final_state excluded_cases term_list T']
  by blast

theorem result_shape_and_dtype_witness:
  "\<exists>T T'.
     assemble_isr (\<lambda>c tm. Inr (Integer (3 * int (c ! 0) + int (c ! 1))))
       (\<lambda>e. case e of Integer i \<Rightarrow> i | _ \<Rightarrow> (0 :: int)) 2 (1/100) True (Mul []) = Inr T
     \<and> shape T = [3, 3] \<and> dtype T = complex_dtype
     \<and> assemble_sos_fast (\<lambda>tm. Inr ([('''', ''A'', [1, 2, 3 :: int])], 1 :: int, []))
         (\<lambda>arr i axis. arr) remdups (\<lambda>f s arrs. Inr (map ((*) f) (concat arrs)))
         (\<lambda>t a. Inr (\<lambda>c. cells t c + a ! (c ! 0))) 1 0 None [] [Mul []] = Inr T'
     \<and> shape T' = [3] \<and> dtype T' = float_dtype"
proof -
  let ?S = "\<lambda>(c :: nat list) (tm :: expr). Inr (Integer (3 * int (c ! 0) + int (c ! 1))) :: error + expr"
  let ?num = "\<lambda>e. case e of Integer i \<Rightarrow> i | _ \<Rightarrow> (0 :: int)"
  have "\<forall>c \<in> set (tensor_components True 2). \<forall>tm \<in> set (term_list_of (Mul [])).
             ?S c tm = Inr (Integer (3 * int (c ! 0) + int (c ! 1)))
             \<and> Integer (3 * int (c ! 0) + int (c ! 1)) \<noteq> ComplexInfinity"
    by simp
  then obtain T where T: "assemble_isr ?S ?num 2 (1/100) True (Mul []) = Inr T"
    using assemble_isr_symmetric_returns
      [of 2 "Mul []" ?S "\<lambda>c tm. Integer (3 * int (c ! 0) + int (c ! 1))" ?num "1/100"]
    by blast
  obtain T' where T': "assemble_sos_fast (\<lambda>tm. Inr ([('''', ''A'', [1, 2, 3 :: int])], 1 :: int, []))
         (\<lambda>arr i axis. arr) remdups (\<lambda>f s arrs. Inr (map ((*) f) (concat arrs)))
         (\<lambda>t a. Inr (\<lambda>c. cells t c + a ! (c ! 0))) 1 0 None [] [Mul []] = Inr (T' :: int ndarray)"
    by (simp add: assemble_sos_fast_def term_contribution_def)
  have "shape T = replicate 2 3 \<and> dtype T = (if (1/100 :: rat) = 0 then float_dtype else complex_dtype)"
    using result_shape_and_dtype [THEN conjunct1, of ?S ?num 2 "1/100" True "Mul []" T] T by blast
  moreover have "shape T' = replicate 1 3 \<and> dtype T' = (if (0 :: rat) = 0 then float_dtype else complex_dtype)"
    using result_shape_and_dtype [THEN conjunct2] T' by blast
  ultimately have "shape T = [3, 3] \<and> dtype T = complex_dtype \<and> shape T' = [3] \<and> dtype T' = float_dtype"
    by (simp add: numeral_2_eq_2)
  then show ?thesis
    using T T' by blast
qed

section \<open>Properties: the test for complex infinity in the assembly by substitution\<close>























end
